theory Spec2Isabelle
  imports Main "HOL-Library.Sublist" "HOL-Library.AList"
begin

section \<open>Text helpers\<close>

text \<open>
  Python formats a non-negative integer inside an f-string as its decimal digits.
  \<open>str_nat\<close> is that rendering; \<open>join\<close> is \<open>sep.join(parts)\<close>.
\<close>

definition digit_char :: "nat \<Rightarrow> char" where
  "digit_char n = ''0123456789'' ! (n mod 10)"

fun str_nat :: "nat \<Rightarrow> string" where
  "str_nat n = (if n < 10 then [digit_char n] else str_nat (n div 10) @ [digit_char (n mod 10)])"

declare str_nat.simps [simp del]

fun join :: "string \<Rightarrow> string list \<Rightarrow> string" where
  "join sep [] = []"
| "join sep [x] = x"
| "join sep (x # y # ys) = x @ sep @ join sep (y # ys)"

section \<open>The emitted language\<close>

text \<open>
  Every line the generator emits is a sequence of space-separated tokens of five shapes:
  a condition \<open>$r==v?\<close>, a register command \<open>$r:=v\<close>, the timer command
  \<open>T($r, n)\<close>, a jump \<open>J(name)\<close> and a play \<open>P(label)\<close>.  The model keeps the
  tokens apart and \<open>render_line\<close> gives back the text of the f-string.
  An operand is a register \<open>$r\<close>, a formatted integer, or text copied from a regex
  capture (\<open>Txt\<close>).
\<close>

datatype operand = Reg string | Num nat | Txt string

datatype cmp = Eq | Ne | Lt | Gt

datatype aop = Set | Add | Sub | Mul | Mod | Div

datatype token =
    Cond string cmp operand
  | Cmd string aop operand
  | Timer string nat
  | Jump string
  | Play string

type_synonym line = "token list"

text \<open>A script is either one string or a list of strings in the source.\<close>

datatype script = Str line | Lst "line list"

fun render_operand :: "operand \<Rightarrow> string" where
  "render_operand (Reg r) = ''$'' @ r"
| "render_operand (Num n) = str_nat n"
| "render_operand (Txt s) = s"

fun cmp_text :: "cmp \<Rightarrow> string" where
  "cmp_text Eq = ''==''"
| "cmp_text Ne = ''!=''"
| "cmp_text Lt = ''<''"
| "cmp_text Gt = ''>''"

fun aop_text :: "aop \<Rightarrow> string" where
  "aop_text Set = '':=''"
| "aop_text Add = ''+=''"
| "aop_text Sub = ''-=''"
| "aop_text Mul = ''*=''"
| "aop_text Mod = ''%=''"
| "aop_text Div = ''/=''"

fun render :: "token \<Rightarrow> string" where
  "render (Cond r c v) = ''$'' @ r @ cmp_text c @ render_operand v @ ''?''"
| "render (Cmd r a v) = ''$'' @ r @ aop_text a @ render_operand v"
| "render (Timer r n) = ''T($'' @ r @ '', '' @ str_nat n @ '')''"
| "render (Jump s) = ''J('' @ s @ '')''"
| "render (Play s) = ''P('' @ s @ '')''"

definition render_line :: "line \<Rightarrow> string" where
  "render_line l = join '' '' (map render l)"

fun is_cond :: "token \<Rightarrow> bool" where
  "is_cond (Cond r c v) = True"
| "is_cond _ = False"

fun script_lines :: "script \<Rightarrow> line list" where
  "script_lines (Str l) = [l]"
| "script_lines (Lst ls) = ls"

section \<open>Card sounds\<close>

datatype error = IndexError | KeyError

text \<open>Python list indexing: a negative index counts from the end, anything else out of
  range raises IndexError.\<close>

definition py_index :: "'a list \<Rightarrow> int \<Rightarrow> 'a option" where
  "py_index xs i =
     (if 0 \<le> i \<and> i < int (length xs) then Some (xs ! nat i)
      else if i < 0 \<and> - int (length xs) \<le> i then Some (xs ! nat (int (length xs) + i))
      else None)"

text \<open>\<open>pair_index\<close> is the list index \<open>sound\<close> reads for a card id
  (\<open>crd\<close> is the source's parameter \<open>card\<close>).\<close>

definition pair_index :: "int \<Rightarrow> int \<Rightarrow> int" where
  "pair_index numPairs crd = (if crd \<le> numPairs then crd - 1 else numPairs * 2 - crd)"

definition sound :: "string list \<Rightarrow> bool \<Rightarrow> int \<Rightarrow> string option" where
  "sound pairs alternativeSounds crd =
     (let numPairs = int (length pairs); numCards = numPairs * 2 in
      if crd \<le> numPairs then
        (case py_index pairs (crd - 1) of
           None \<Rightarrow> None
         | Some p \<Rightarrow> if alternativeSounds then Some (p @ ''_a'') else Some p)
      else
        (case py_index pairs (numCards - crd) of
           None \<Rightarrow> None
         | Some p \<Rightarrow> if alternativeSounds then Some (p @ ''_b'') else Some p))"

section \<open>Script families\<close>

definition reg_c :: "nat \<Rightarrow> string" where
  "reg_c x = ''c'' @ str_nat x"

definition reg_pairs :: "nat \<Rightarrow> string" where
  "reg_pairs p = ''pairs'' @ str_nat p"

text \<open>\<open>game['init']\<close>: the cards in order, the number of pairs to find, player 1.\<close>

definition init_line :: "nat \<Rightarrow> string" where
  "init_line numPairs =
     join '' '' (map (\<lambda>x. render (Cmd (reg_c x) Set (Num (x + 1)))) [0..<numPairs * 2])
     @ '' '' @ render (Cmd ''remaining'' Set (Num numPairs))
     @ '' '' @ render (Cmd ''player'' Set (Num 1))"

definition idle :: line where
  "idle = [Cmd ''busy'' Set (Num 0)]"

definition player_lines :: "string \<Rightarrow> nat \<Rightarrow> nat \<Rightarrow> line list" where
  "player_lines lang numPairs p =
     [ [Cond ''players'' Eq (Num 0), Cmd ''players'' Set (Num p), Cmd ''busy'' Set (Num 1),
        Timer ''random'' 65535, Jump ''shuffle'', Play (lang @ ''_shuffle'')],
       [Cond ''busy'' Eq (Num 0), Cond ''players'' Lt (Num p), Cmd ''busy'' Set (Num 1),
        Jump ''idle'', Play (lang @ ''_not_playing'')] ]
     @ map (\<lambda>pa. [Cond ''busy'' Eq (Num 0), Cond (reg_pairs p) Eq (Num pa),
                  Cmd ''busy'' Set (Num 1), Jump ''idle'',
                  Play (lang @ ''_pairs'' @ str_nat pa)])
           [0..<numPairs + 1]"

definition winner_line :: "string \<Rightarrow> nat \<Rightarrow> nat \<Rightarrow> line" where
  "winner_line lang players player =
     [Cond ''busy'' Eq (Num 0)]
     @ map (\<lambda>other. Cond (reg_pairs player) Gt (Reg (reg_pairs other)))
           (filter (\<lambda>other. player \<noteq> other) [1..<players + 1])
     @ [Cmd ''busy'' Set (Num 1), Jump ''idle'', Play (lang @ ''_winner'' @ str_nat player)]"

definition question :: "string \<Rightarrow> nat \<Rightarrow> line list" where
  "question lang players =
     [[Cond ''busy'' Eq (Num 0), Cond ''players'' Eq (Num 0), Cmd ''busy'' Set (Num 1),
       Jump ''idle'', Play (lang @ ''_not_started'')]]
     @ map (\<lambda>p. [Cond ''busy'' Eq (Num 0), Cond ''remaining'' Gt (Num 0),
                 Cond ''player'' Eq (Num p), Cmd ''busy'' Set (Num 1), Jump ''idle'',
                 Play (lang @ ''_player'' @ str_nat p)])
           [1..<players + 1]
     @ map (winner_line lang players) [1..<players + 1]
     @ [[Cond ''busy'' Eq (Num 0), Cmd ''busy'' Set (Num 1), Jump ''idle'',
         Play (lang @ ''_draw'')]]"

text \<open>The three scripts below call \<open>sound(c)\<close> for every card id \<open>c\<close> of
  \<open>range(1, numCards+1)\<close>; an IndexError there is \<open>None\<close>.\<close>

definition sound_lines :: "string list \<Rightarrow> bool \<Rightarrow> (nat \<Rightarrow> string \<Rightarrow> line) \<Rightarrow> line list option" where
  "sound_lines pairs alternativeSounds f =
     those (map (\<lambda>c. map_option (f c) (sound pairs alternativeSounds (int c)))
                [1..<length pairs * 2 + 1])"

definition repeat_script :: "string \<Rightarrow> string list \<Rightarrow> bool \<Rightarrow> script option" where
  "repeat_script lang pairs alternativeSounds =
     map_option
       (\<lambda>ls. Lst ([[Cond ''busy'' Eq (Num 0), Cond ''remaining'' Eq (Num 0),
                    Cmd ''busy'' Set (Num 1), Jump ''restart0'', Play ''nop'']] @ ls))
       (sound_lines pairs alternativeSounds
          (\<lambda>c s. [Cond ''busy'' Eq (Num 0), Cond ''lastCard'' Eq (Num c),
                  Cmd ''busy'' Set (Num 1), Jump ''idle'', Play s]))"

definition shuffle :: "nat \<Rightarrow> line" where
  "shuffle numCards =
     [Cmd ''random'' Mul (Num 25173), Cmd ''random'' Add (Num 13849),
      Cmd ''rnd'' Set (Reg ''random''), Cmd ''pos'' Set (Reg ''rnd''),
      Cmd ''pos'' Mod (Num numCards), Cmd ''rnd'' Div (Num numCards),
      Jump ''shuffle0'', Play ''nop'']"

definition guard_line :: "nat \<Rightarrow> nat \<Rightarrow> line" where
  "guard_line numCards pos1 =
     [Cond ''rnd'' Lt (Num (10 * (numCards - pos1 - 1))),
      Cmd ''random'' Mul (Num 25173), Cmd ''random'' Add (Num 13849),
      Cmd ''rnd'' Set (Reg ''random''),
      Jump (''shuffle'' @ str_nat pos1), Play ''nop'']"

definition swap_line :: "string \<Rightarrow> nat \<Rightarrow> nat \<Rightarrow> nat \<Rightarrow> line" where
  "swap_line lang numCards pos1 pos2 =
     [Cond ''pos'' Eq (Num (pos2 - pos1))]
     @ (if pos1 \<noteq> pos2
        then [Cmd ''t'' Set (Reg (reg_c pos1)), Cmd (reg_c pos1) Set (Reg (reg_c pos2)),
              Cmd (reg_c pos2) Set (Reg ''t'')]
        else [])
     @ (if pos1 = numCards - 2
        then [Play (lang @ ''_start''), Jump ''idle'', Play (lang @ ''_player1'')]
        else [Cmd ''pos'' Set (Reg ''rnd''), Cmd ''pos'' Mod (Num (numCards - pos1 - 1)),
              Cmd ''rnd'' Div (Num (numCards - pos1 - 1)),
              Jump (''shuffle'' @ str_nat (pos1 + 1)), Play ''nop''])"

definition shuffle_lines :: "string \<Rightarrow> nat \<Rightarrow> nat \<Rightarrow> line list" where
  "shuffle_lines lang numCards pos1 =
     (if pos1 < numCards - 2 then [guard_line numCards pos1] else [])
     @ map (swap_line lang numCards pos1) [pos1..<numCards]"

text \<open>The loop \<open>for pos1 in range(numCards-1)\<close>, one dictionary entry per position.\<close>

definition shuffle_family :: "string \<Rightarrow> nat \<Rightarrow> (string \<times> script) list" where
  "shuffle_family lang numCards =
     map (\<lambda>pos1. (''shuffle'' @ str_nat pos1, Lst (shuffle_lines lang numCards pos1)))
         [0..<numCards - 1]"

definition card_lines :: "string \<Rightarrow> nat \<Rightarrow> line list" where
  "card_lines lang c =
     [ [Cond ''players'' Eq (Num 0), Play (lang @ ''_not_started'')],
       [Cond ''remaining'' Eq (Num 0), Play (lang @ ''_finished'')],
       [Cond ''busy'' Eq (Num 0), Cond (reg_c c) Eq (Num 0), Cmd ''busy'' Set (Num 1),
        Jump ''idle'', Play (lang @ ''_empty'')],
       [Cond ''busy'' Eq (Num 0), Cond ''card1'' Eq (Num 0),
        Cmd ''card1'' Set (Reg (reg_c c)), Cmd ''pos1'' Set (Num c),
        Cmd ''lastCard'' Set (Reg (reg_c c)), Cmd ''lastPos'' Set (Num c),
        Cmd ''busy'' Set (Num 1), Jump ''firstCard'', Play ''nop''],
       [Cond ''busy'' Eq (Num 0), Cond ''card1'' Eq (Reg (reg_c c)),
        Cmd ''busy'' Set (Num 1), Jump ''firstCard'', Play ''nop''],
       [Cond ''busy'' Eq (Num 0), Cond ''card1'' Ne (Reg (reg_c c)),
        Cmd ''card2'' Set (Reg (reg_c c)), Cmd ''pos2'' Set (Num c),
        Cmd ''lastCard'' Set (Reg (reg_c c)), Cmd ''lastPos'' Set (Num c),
        Cmd ''busy'' Set (Num 1), Jump ''secondCard'', Play ''nop''] ]"

definition card_family :: "string \<Rightarrow> nat \<Rightarrow> (string \<times> script) list" where
  "card_family lang numCards =
     map (\<lambda>c. (''c'' @ str_nat c, Lst (card_lines lang c))) [0..<numCards]"

definition firstCard :: "string list \<Rightarrow> bool \<Rightarrow> script option" where
  "firstCard pairs alternativeSounds =
     map_option Lst
       (sound_lines pairs alternativeSounds
          (\<lambda>c s. [Cond ''card1'' Eq (Num c), Jump ''idle'', Play s]))"

definition secondCard :: "string list \<Rightarrow> bool \<Rightarrow> script option" where
  "secondCard pairs alternativeSounds =
     map_option Lst
       (sound_lines pairs alternativeSounds
          (\<lambda>c s. [Cond ''card2'' Eq (Num c), Cmd ''sum'' Set (Reg ''card1''),
                  Cmd ''sum'' Add (Reg ''card2''), Cmd ''card1'' Set (Num 0),
                  Cmd ''card2'' Set (Num 0), Jump ''test'', Play s]))"

definition test :: "string \<Rightarrow> nat \<Rightarrow> nat \<Rightarrow> line list" where
  "test lang numCards players =
     map (\<lambda>p. [Cond ''sum'' Eq (Num (numCards + 1)), Cond ''player'' Eq (Num p),
               Cmd (reg_pairs p) Add (Num 1), Cmd ''remaining'' Sub (Num 1),
               Jump ''clear1'', Play (lang @ ''_match'')])
         [1..<players + 1]
     @ [[Cond ''player'' Eq (Reg ''players''), Cmd ''player'' Set (Num 1), Jump ''idle'',
         Play (lang @ ''_player1'')]]
     @ map (\<lambda>p. [Cond ''player'' Eq (Num p), Cmd ''player'' Add (Num 1), Jump ''idle'',
                 Play (lang @ ''_player'' @ str_nat (p + 1))])
           [1..<players]"

definition clear1 :: "string \<Rightarrow> nat \<Rightarrow> line list" where
  "clear1 lang numCards =
     [[Cond ''remaining'' Eq (Num 0), Cmd ''busy'' Set (Num 0), Jump ''q'',
       Play (lang @ ''_finished'')]]
     @ map (\<lambda>c. [Cond ''pos1'' Eq (Num c), Cmd (reg_c c) Set (Num 0),
                 Cmd ''pos1'' Set (Num 0), Jump ''clear2'', Play ''nop''])
           [0..<numCards]"

definition clear2 :: "string \<Rightarrow> nat \<Rightarrow> line list" where
  "clear2 lang numCards =
     map (\<lambda>c. [Cond ''pos2'' Eq (Num c), Cmd (reg_c c) Set (Num 0),
               Cmd ''pos2'' Set (Num 0), Jump ''idle'', Play (lang @ ''_continue'')])
         [0..<numCards]"

text \<open>
  The script table as it stands before the restart scripts are added, in the order the
  source assigns the entries.  The names are pairwise different, so no assignment
  replaces an earlier entry.
\<close>

definition base_scripts ::
  "nat \<Rightarrow> string list \<Rightarrow> bool \<Rightarrow> string \<Rightarrow> error + (string \<times> script) list" where
  "base_scripts players pairs alternativeSounds lang =
     (let numPairs = length pairs; numCards = numPairs * 2 in
      case repeat_script lang pairs alternativeSounds of
        None \<Rightarrow> Inl IndexError
      | Some r \<Rightarrow>
      (case firstCard pairs alternativeSounds of
        None \<Rightarrow> Inl IndexError
      | Some fc \<Rightarrow>
      (case secondCard pairs alternativeSounds of
        None \<Rightarrow> Inl IndexError
      | Some sc \<Rightarrow> Inr (
          [(''idle'', Str idle)]
          @ map (\<lambda>p. (''p'' @ str_nat p, Lst (player_lines lang numPairs p))) [1..<players + 1]
          @ [(''q'', Lst (question lang players)),
             (''r'', r),
             (''shuffle'', Str (shuffle numCards))]
          @ shuffle_family lang numCards
          @ card_family lang numCards
          @ [(''firstCard'', fc),
             (''secondCard'', sc),
             (''test'', Lst (test lang numCards players)),
             (''clear1'', Lst (clear1 lang numCards)),
             (''clear2'', Lst (clear2 lang numCards))]))))"

section \<open>Registers and restart scripts\<close>

text \<open>
  The two regular expressions of the source, \<open>\$([a-zA-Z0-9]+):=([0-9]+)\<close> and
  \<open>\$([a-zA-Z0-9]+)\<close>, as scanners: both character classes exclude the character that
  has to follow, so the greedy run is the only way to match, and \<open>findall\<close> resumes
  after each match.
\<close>

definition alnum :: "char \<Rightarrow> bool" where
  "alnum ch = (ch \<in> set ''abcdefghijklmnopqrstuvwxyzABCDEFGHIJKLMNOPQRSTUVWXYZ0123456789'')"

definition digit :: "char \<Rightarrow> bool" where
  "digit ch = (ch \<in> set ''0123456789'')"

function findall_var :: "string \<Rightarrow> string list" where
  "findall_var [] = []"
| "findall_var (ch # cs) =
     (if ch = CHR ''$'' \<and> takeWhile alnum cs \<noteq> []
      then takeWhile alnum cs # findall_var (dropWhile alnum cs)
      else findall_var cs)"
  by pat_completeness auto
termination
  by (relation "measure length") (auto simp: length_dropWhile_le le_imp_less_Suc)

text \<open>\<open>match_init cs\<close> matches the first regex right after a \<open>$\<close>: the name, the
  value and the text left after the match.\<close>

definition match_init :: "string \<Rightarrow> (string \<times> string \<times> string) option" where
  "match_init cs =
     (let name = takeWhile alnum cs; r1 = dropWhile alnum cs in
      if name \<noteq> [] \<and> prefix '':='' r1 then
        (let r2 = drop 2 r1; v = takeWhile digit r2; r3 = dropWhile digit r2 in
         if v \<noteq> [] then Some (name, v, r3) else None)
      else None)"

lemma match_init_length:
  "match_init cs = Some (name, v, rest) \<Longrightarrow> length rest \<le> length cs"
proof -
  assume a: "match_init cs = Some (name, v, rest)"
  then have "rest = dropWhile digit (drop 2 (dropWhile alnum cs))"
    by (auto simp: match_init_def Let_def split: if_splits)
  moreover have "length (dropWhile digit (drop 2 (dropWhile alnum cs)))
      \<le> length (drop 2 (dropWhile alnum cs))"
    by (rule length_dropWhile_le)
  moreover have "length (dropWhile alnum cs) \<le> length cs"
    by (rule length_dropWhile_le)
  ultimately show ?thesis by simp
qed

function findall_init :: "string \<Rightarrow> (string \<times> string) list" where
  "findall_init [] = []"
| "findall_init (ch # cs) =
     (if ch = CHR ''$'' then
        (case match_init cs of
           Some (name, v, rest) \<Rightarrow> (name, v) # findall_init rest
         | None \<Rightarrow> findall_init cs)
      else findall_init cs)"
  by pat_completeness auto
termination
  by (relation "measure length") (auto dest: match_init_length simp: le_imp_less_Suc)

text \<open>
  \<open>for line in script\<close>: a script that is a list yields its lines, a script that is one
  string yields its characters one by one.
\<close>

fun script_iter :: "script \<Rightarrow> string list" where
  "script_iter (Str l) = map (\<lambda>ch. [ch]) (render_line l)"
| "script_iter (Lst ls) = map render_line ls"

text \<open>
  The dictionary \<open>variables\<close> keeps insertion order (\<open>AList.update\<close> replaces in place or
  appends).  A value is the text captured from the init line or the integer 0.
\<close>

definition add_variable :: "string \<Rightarrow> (string \<times> operand) list \<Rightarrow> (string \<times> operand) list" where
  "add_variable name vs = (if name \<in> set (map fst vs) then vs else AList.update name (Num 0) vs)"

definition variables :: "string \<Rightarrow> (string \<times> script) list \<Rightarrow> (string \<times> operand) list" where
  "variables init scripts =
     fold add_variable
       (concat (map findall_var (concat (map (\<lambda>(name, script). script_iter script) scripts))))
       (fold (\<lambda>(name, v). AList.update name (Txt v)) (findall_init init) [])"

definition del_busy :: "(string \<times> operand) list \<Rightarrow> error + (string \<times> operand) list" where
  "del_busy vs =
     (if ''busy'' \<in> set (map fst vs) then Inr (AList.delete ''busy'' vs) else Inl KeyError)"

text \<open>The loop over \<open>variables.items()\<close> with its state \<open>count\<close>, \<open>cmd\<close>, \<open>i\<close>, closed
  by the assignment of the last restart script.\<close>

fun restart_loop ::
  "(string \<times> operand) list \<Rightarrow> nat \<Rightarrow> line \<Rightarrow> nat \<Rightarrow> string \<Rightarrow> (string \<times> script) list" where
  "restart_loop [] count cmd i welcome =
     [(''restart'' @ str_nat i, Str (cmd @ [Jump ''idle'', Play welcome]))]"
| "restart_loop (variable # rest) count cmd i welcome =
     (if count = 6
      then (''restart'' @ str_nat i,
            Str (cmd @ [Jump (''restart'' @ str_nat (i + 1)), Play ''nop'']))
           # restart_loop rest 1 [Cmd (fst variable) Set (snd variable)] (i + 1) welcome
      else restart_loop rest (count + 1) (cmd @ [Cmd (fst variable) Set (snd variable)]) i
             welcome)"

text \<open>\<open>game['scripts']\<close>; \<open>welcome\<close> is \<open>None\<close> when the template has no such key.\<close>

definition scripts ::
  "nat \<Rightarrow> string list \<Rightarrow> bool \<Rightarrow> string \<Rightarrow> string option \<Rightarrow> error + (string \<times> script) list" where
  "scripts players pairs alternativeSounds lang welcome =
     (case base_scripts players pairs alternativeSounds lang of
        Inl e \<Rightarrow> Inl e
      | Inr base \<Rightarrow>
      (case del_busy (variables (init_line (length pairs)) base) of
        Inl e \<Rightarrow> Inl e
      | Inr vars \<Rightarrow>
      (case welcome of
        None \<Rightarrow> Inl KeyError
      | Some w \<Rightarrow> Inr (base @ restart_loop vars 0 [] 0 w))))"

definition all_lines :: "(string \<times> script) list \<Rightarrow> line list" where
  "all_lines prog = concat (map (\<lambda>(name, script). script_lines script) prog)"

section \<open>Script codes\<close>

definition assign_if_absent :: "string \<Rightarrow> int \<Rightarrow> (string \<rightharpoonup> int) \<Rightarrow> (string \<rightharpoonup> int)" where
  "assign_if_absent name code codes =
     (case codes name of None \<Rightarrow> codes(name \<mapsto> code) | Some old \<Rightarrow> codes)"

fun player_codes :: "nat list \<Rightarrow> int \<Rightarrow> (string \<rightharpoonup> int) \<Rightarrow> (string \<rightharpoonup> int)" where
  "player_codes [] code codes = codes"
| "player_codes (p # ps) code codes =
     player_codes ps (code + 1) (assign_if_absent (''p'' @ str_nat (p + 1)) (code + 1) codes)"

fun card_codes :: "nat list \<Rightarrow> int \<Rightarrow> (string \<rightharpoonup> int) \<Rightarrow> (string \<rightharpoonup> int)" where
  "card_codes [] code codes = codes"
| "card_codes (c # cs) code codes =
     card_codes cs (code + 1) (assign_if_absent (''c'' @ str_nat c) code codes)"

fun other_codes :: "string list \<Rightarrow> int \<Rightarrow> (string \<rightharpoonup> int) \<Rightarrow> (string \<rightharpoonup> int)" where
  "other_codes [] code codes = codes"
| "other_codes (s # ss) code codes =
     (case codes s of
        None \<Rightarrow> other_codes ss (code + 1) (codes(s \<mapsto> code))
      | Some old \<Rightarrow> other_codes ss code codes)"

text \<open>\<open>given\<close> is the template's \<open>scriptcodes\<close> table when it has one; \<open>names\<close> are the
  keys of \<open>scripts\<close> in order.\<close>

definition scriptcodes ::
  "(string \<rightharpoonup> int) option \<Rightarrow> nat \<Rightarrow> nat \<Rightarrow> string list \<Rightarrow> (string \<rightharpoonup> int)" where
  "scriptcodes given players numCards names =
     (let codes0 = (case given of None \<Rightarrow> Map.empty | Some t \<Rightarrow> t);
          codes1 = assign_if_absent ''q'' 2000 codes0;
          codes2 = assign_if_absent ''r'' 2001 codes1;
          codes3 = player_codes [0..<players] 2001 codes2;
          codes4 = card_codes [0..<numCards] 3000 codes3
      in other_codes names 4000 codes4)"

section \<open>Play mode\<close>

text \<open>
  \<open>nop.sub('', l)\<close> deletes the occurrences of \<open>" P(nop)"\<close> from left to right;
  \<open>jump.sub(r'\2 \1', l)\<close> swaps each match of \<open>(J\([^\)]+\)) (P\([^\)]+\))\<close>.
  \<open>match_group\<close> matches \<open>X\([^\)]+\)\<close> at the head of the text.
\<close>

function nop_sub :: "string \<Rightarrow> string" where
  "nop_sub [] = []"
| "nop_sub (ch # cs) =
     (if prefix '' P(nop)'' (ch # cs) then nop_sub (drop 6 cs) else ch # nop_sub cs)"
  by pat_completeness auto
termination
  by (relation "measure length") auto

definition match_group :: "string \<Rightarrow> string \<Rightarrow> (string \<times> string) option" where
  "match_group opener s =
     (if prefix opener s then
        (let body = takeWhile (\<lambda>ch. ch \<noteq> CHR '')'') (drop (length opener) s);
             rest = dropWhile (\<lambda>ch. ch \<noteq> CHR '')'') (drop (length opener) s)
         in if body \<noteq> [] \<and> rest \<noteq> [] then Some (body, tl rest) else None)
      else None)"

definition match_jump :: "string \<Rightarrow> (string \<times> string \<times> string) option" where
  "match_jump s =
     (case match_group ''J('' s of
        None \<Rightarrow> None
      | Some (a, r1) \<Rightarrow>
        (case r1 of
           [] \<Rightarrow> None
         | sp # r2 \<Rightarrow>
           if sp = CHR '' '' then
             (case match_group ''P('' r2 of
                None \<Rightarrow> None
              | Some (b, r3) \<Rightarrow> Some (a, b, r3))
           else None))"

lemma match_group_length:
  "match_group opener s = Some (body, rest) \<Longrightarrow> length rest \<le> length s"
proof -
  assume "match_group opener s = Some (body, rest)"
  then have "rest = tl (dropWhile (\<lambda>ch. ch \<noteq> CHR '')'') (drop (length opener) s))"
    by (auto simp: match_group_def Let_def split: if_splits)
  moreover have "length (dropWhile (\<lambda>ch. ch \<noteq> CHR '')'') (drop (length opener) s))
      \<le> length (drop (length opener) s)"
    by (rule length_dropWhile_le)
  ultimately show ?thesis by simp
qed

lemma match_jump_length:
  "match_jump s = Some (a, b, rest) \<Longrightarrow> length rest < length s"
  by (auto simp: match_jump_def split: option.splits list.splits if_splits
           dest!: match_group_length)

function jump_sub :: "string \<Rightarrow> string" where
  "jump_sub [] = []"
| "jump_sub (ch # cs) =
     (case match_jump (ch # cs) of
        Some (a, b, rest) \<Rightarrow> ''P('' @ b @ '') J('' @ a @ '')'' @ jump_sub rest
      | None \<Rightarrow> ch # jump_sub cs)"
  by pat_completeness auto
termination
  by (relation "measure length") (auto dest: match_jump_length)

definition play_line :: "string \<Rightarrow> string" where
  "play_line l = jump_sub (nop_sub l)"

section \<open>What the emitted conditions mean\<close>

text \<open>
  Modelled from the spec: the player that runs the emitted program is not part of the
  repository.  A script is evaluated top-down, the conditions of a line are a conjunction,
  and the first line whose conditions all hold fires.  Registers hold natural numbers.
\<close>

type_synonym store = "string \<Rightarrow> nat"

definition digits_value :: "string \<Rightarrow> nat" where
  "digits_value s = foldl (\<lambda>n ch. 10 * n + (of_char ch - 48)) 0 s"

fun eval_operand :: "store \<Rightarrow> operand \<Rightarrow> nat" where
  "eval_operand st (Reg r) = st r"
| "eval_operand st (Num n) = n"
| "eval_operand st (Txt s) = digits_value s"

fun cmp_holds :: "cmp \<Rightarrow> nat \<Rightarrow> nat \<Rightarrow> bool" where
  "cmp_holds Eq a b = (a = b)"
| "cmp_holds Ne a b = (a \<noteq> b)"
| "cmp_holds Lt a b = (a < b)"
| "cmp_holds Gt a b = (a > b)"

fun cond_holds :: "store \<Rightarrow> token \<Rightarrow> bool" where
  "cond_holds st (Cond r c v) = cmp_holds c (st r) (eval_operand st v)"
| "cond_holds st t = True"

definition line_fires :: "store \<Rightarrow> line \<Rightarrow> bool" where
  "line_fires st l = list_all (cond_holds st) l"

fun first_fire :: "store \<Rightarrow> line list \<Rightarrow> nat option" where
  "first_fire st [] = None"
| "first_fire st (l # ls) =
     (if line_fires st l then Some 0 else map_option Suc (first_fire st ls))"


section \<open>Properties of lines\<close>

text \<open>The tokens of a line that are not conditions: commands, jumps and plays.\<close>

definition command_count :: "line \<Rightarrow> nat" where
  "command_count l = length (filter (\<lambda>t. \<not> is_cond t) l)"

text \<open>An entry of \<open>variables\<close> as the two regular expressions can produce it: a name of
  letters and digits, and as value the integer 0 or captured digits.\<close>

definition wf_var :: "string \<times> operand \<Rightarrow> bool" where
  "wf_var nv = (fst nv \<noteq> [] \<and> list_all alnum (fst nv)
       \<and> (snd nv = Num 0 \<or> (\<exists>d. snd nv = Txt d \<and> d \<noteq> [] \<and> list_all digit d)))"

text \<open>The script table of a run that succeeds (empty when the run raises).\<close>

definition generated :: "nat \<Rightarrow> string list \<Rightarrow> bool \<Rightarrow> string \<Rightarrow> string \<Rightarrow> (string \<times> script) list" where
  "generated players pairs alternativeSounds lang welcome =
     (case scripts players pairs alternativeSounds lang (Some welcome) of
        Inl e \<Rightarrow> []
      | Inr prog \<Rightarrow> prog)"

text \<open>A token that sets the busy register to 0.\<close>

fun clears_busy :: "token \<Rightarrow> bool" where
  "clears_busy (Cmd r a v) = (r = ''busy'' \<and> a = Set \<and> render_operand v = ''0'')"
| "clears_busy t = False"

text \<open>
  The registers a token names, in the order of its text, and the tokens whose text the
  register scan reads as just these names: register names of letters and digits, and no
  \<open>$\<close> in a label or in captured text.
\<close>

fun operand_regs :: "operand \<Rightarrow> string list" where
  "operand_regs (Reg r) = [r]"
| "operand_regs (Num n) = []"
| "operand_regs (Txt s) = []"

fun token_regs :: "token \<Rightarrow> string list" where
  "token_regs (Cond r c v) = r # operand_regs v"
| "token_regs (Cmd r a v) = r # operand_regs v"
| "token_regs (Timer r n) = [r]"
| "token_regs (Jump s) = []"
| "token_regs (Play s) = []"

definition ident :: "string \<Rightarrow> bool" where
  "ident r = (r \<noteq> [] \<and> list_all alnum r)"

fun plain_operand :: "operand \<Rightarrow> bool" where
  "plain_operand (Reg r) = ident r"
| "plain_operand (Num n) = True"
| "plain_operand (Txt s) = (CHR ''$'' \<notin> set s)"

fun plain_token :: "token \<Rightarrow> bool" where
  "plain_token (Cond r c v) = (ident r \<and> plain_operand v)"
| "plain_token (Cmd r a v) = (ident r \<and> plain_operand v)"
| "plain_token (Timer r n) = ident r"
| "plain_token (Jump s) = (CHR ''$'' \<notin> set s)"
| "plain_token (Play s) = (CHR ''$'' \<notin> set s)"

fun script_regs :: "script \<Rightarrow> string list" where
  "script_regs (Str l) = []"
| "script_regs (Lst ls) = concat (map (\<lambda>l. concat (map token_regs l)) ls)"

section \<open>Play mode on tokens\<close>

text \<open>
  The play-mode pass in the words of the spec, on the tokens of a line: remove the no-op
  plays, then turn each adjacent jump and play into play and jump.
\<close>

definition remove_nops :: "line \<Rightarrow> line" where
  "remove_nops l = filter (\<lambda>t. t \<noteq> Play ''nop'') l"

fun swap_jump_play :: "line \<Rightarrow> line" where
  "swap_jump_play (Jump j # Play p # rest) = Play p # Jump j # swap_jump_play rest"
| "swap_jump_play (t # rest) = t # swap_jump_play rest"
| "swap_jump_play [] = []"

definition play_tokens :: "line \<Rightarrow> line" where
  "play_tokens l = swap_jump_play (remove_nops l)"

text \<open>A jump directly followed by a play.\<close>

fun jump_then_play :: "line \<Rightarrow> bool" where
  "jump_then_play (Jump j # Play p # rest) = True"
| "jump_then_play (t # rest) = jump_then_play rest"
| "jump_then_play [] = False"

text \<open>A label or script name that the two regular expressions read as one group: not
  empty and without parentheses.\<close>

definition clean :: "string \<Rightarrow> bool" where
  "clean s = (s \<noteq> [] \<and> CHR ''('' \<notin> set s \<and> CHR '')'' \<notin> set s)"

fun jump_or_play :: "token \<Rightarrow> bool" where
  "jump_or_play (Jump s) = clean s"
| "jump_or_play (Play s) = clean s"
| "jump_or_play t = False"

text \<open>Conditions and commands whose text holds no parenthesis apart from the timer's
  and ends in neither \<open>J\<close> nor a space.\<close>

fun inert_operand :: "operand \<Rightarrow> bool" where
  "inert_operand (Reg r) = (ident r \<and> last r \<noteq> CHR ''J'')"
| "inert_operand (Num n) = True"
| "inert_operand (Txt d) = (d \<noteq> [] \<and> list_all digit d)"

fun inert_token :: "token \<Rightarrow> bool" where
  "inert_token (Cond r c v) = (ident r \<and> inert_operand v)"
| "inert_token (Cmd r a v) = (ident r \<and> inert_operand v)"
| "inert_token (Timer r n) = (ident r \<and> CHR ''J'' \<notin> set r)"
| "inert_token t = False"

text \<open>\<open>nopair a b s\<close>: in \<open>s\<close> no \<open>a\<close> is followed by \<open>b\<close>, and \<open>s\<close> does not end in \<open>a\<close>.\<close>

fun nopair :: "char \<Rightarrow> char \<Rightarrow> string \<Rightarrow> bool" where
  "nopair a b [] = True"
| "nopair a b [c] = (c \<noteq> a)"
| "nopair a b (c # d # r) = (\<not> (c = a \<and> d = b) \<and> nopair a b (d # r))"

text \<open>The text of the tokens that follow the first ones of a line.\<close>

definition sfx :: "line \<Rightarrow> string" where
  "sfx l = concat (map (\<lambda>t. CHR '' '' # render t) l)"

text \<open>A line of the generated program: conditions and commands first, at least one, then
  jumps and plays.\<close>

definition line_shape :: "line \<Rightarrow> bool" where
  "line_shape l =
     (takeWhile inert_token l \<noteq> []
      \<and> list_all jump_or_play (dropWhile inert_token l))"

section \<open>Decimal rendering\<close>

lemma digit_char_in: "digit_char n \<in> set ''0123456789''"
  unfolding digit_char_def by (rule nth_mem) simp

lemma digit_char_inj: "a < 10 \<Longrightarrow> b < 10 \<Longrightarrow> digit_char a = digit_char b \<Longrightarrow> a = b"
proof -
  assume a: "a < 10" and b: "b < 10" and e: "digit_char a = digit_char b"
  have d: "distinct ''0123456789''" by simp
  have "''0123456789'' ! a = ''0123456789'' ! b" using e a b by (simp add: digit_char_def)
  then show "a = b" using a b d by (simp add: nth_eq_iff_index_eq)
qed

lemma str_nat_nonempty: "str_nat n \<noteq> []"
  by (subst str_nat.simps) simp

lemma str_nat_digits: "set (str_nat n) \<subseteq> set ''0123456789''"
proof (induction n rule: str_nat.induct)
  case (1 n)
  show ?case
  proof (cases "n < 10")
    case True
    then show ?thesis using digit_char_in[of n] by (subst str_nat.simps) simp
  next
    case False
    then show ?thesis using 1 digit_char_in[of "n mod 10"] by (subst str_nat.simps) simp
  qed
qed

lemma str_nat_length1: "length (str_nat n) = Suc 0 \<longleftrightarrow> n < 10"
proof (cases "n < 10")
  case True
  then show ?thesis by (simp add: str_nat.simps[of n])
next
  case False
  then show ?thesis using str_nat_nonempty[of "n div 10"]
    by (simp add: str_nat.simps[of n])
qed

lemma str_nat_inj: "str_nat n = str_nat m \<Longrightarrow> n = m"
proof (induction n arbitrary: m rule: str_nat.induct)
  case (1 n)
  show ?case
  proof (cases "n < 10")
    case True
    then have "length (str_nat n) = Suc 0" by (simp add: str_nat_length1)
    then have m: "m < 10" using 1(2) by (simp add: str_nat_length1)
    from True m 1(2) have "digit_char n = digit_char m"
      by (simp add: str_nat.simps[of n] str_nat.simps[of m])
    then show ?thesis using True m by (rule digit_char_inj[rotated 2])
  next
    case False
    then have "length (str_nat n) \<noteq> Suc 0" by (simp add: str_nat_length1)
    then have m: "\<not> m < 10" using 1(2) by (simp add: str_nat_length1)
    from False m 1(2) have e: "str_nat (n div 10) @ [digit_char (n mod 10)] = str_nat (m div 10) @ [digit_char (m mod 10)]"
      by (simp add: str_nat.simps[of n] str_nat.simps[of m])
    then have "str_nat (n div 10) = str_nat (m div 10)" and d: "digit_char (n mod 10) = digit_char (m mod 10)" by simp_all
    then have "n div 10 = m div 10" using 1(1)[OF False] by simp
    moreover have "n mod 10 = m mod 10" using d by (intro digit_char_inj) simp_all
    ultimately show ?thesis by (metis div_mult_mod_eq)
  qed
qed

section \<open>Sounds of the two halves of a pair\<close>

lemma sound_in_range:
  assumes "1 \<le> c" and "c \<le> 2 * int (length pairs)"
  shows "sound pairs alt c =
           Some (pairs ! nat (pair_index (int (length pairs)) c)
                 @ (if alt then (if c \<le> int (length pairs) then ''_a'' else ''_b'') else []))"
  using assms by (simp add: sound_def py_index_def pair_index_def Let_def)

lemma sound_pair_facts:
  assumes "1 \<le> c" and "c \<le> 2 * int (length pairs)"
  shows "pair_index (int (length pairs)) (2 * int (length pairs) + 1 - c)
           = pair_index (int (length pairs)) c
       \<and> 0 \<le> pair_index (int (length pairs)) c
       \<and> pair_index (int (length pairs)) c < int (length pairs)
       \<and> (c \<le> int (length pairs) \<longrightarrow> pair_index (int (length pairs)) c = c - 1)
       \<and> sound pairs alt c =
           Some (pairs ! nat (pair_index (int (length pairs)) c)
                 @ (if alt then (if c \<le> int (length pairs) then ''_a'' else ''_b'') else []))
       \<and> sound pairs alt (2 * int (length pairs) + 1 - c) =
           Some (pairs ! nat (pair_index (int (length pairs)) c)
                 @ (if alt then (if c \<le> int (length pairs) then ''_b'' else ''_a'') else []))
       \<and> (\<forall>c2. 1 \<le> c2 \<and> c2 \<le> 2 * int (length pairs) \<longrightarrow>
             (c + c2 = 2 * int (length pairs) + 1
              \<longleftrightarrow> c2 \<noteq> c \<and> pair_index (int (length pairs)) c2 = pair_index (int (length pairs)) c))"
proof -
  let ?n = "int (length pairs)"
  have sym: "pair_index ?n (2 * ?n + 1 - c) = pair_index ?n c"
    using assms by (simp add: pair_index_def)
  have rng: "0 \<le> pair_index ?n c \<and> pair_index ?n c < ?n"
    using assms by (simp add: pair_index_def)
  have low: "c \<le> ?n \<longrightarrow> pair_index ?n c = c - 1"
    by (simp add: pair_index_def)
  have s1: "sound pairs alt c =
           Some (pairs ! nat (pair_index ?n c) @ (if alt then (if c \<le> ?n then ''_a'' else ''_b'') else []))"
    using assms by (rule sound_in_range)
  have "1 \<le> 2 * ?n + 1 - c" and "2 * ?n + 1 - c \<le> 2 * ?n"
    using assms by simp_all
  then have "sound pairs alt (2 * ?n + 1 - c) =
           Some (pairs ! nat (pair_index ?n (2 * ?n + 1 - c))
                 @ (if alt then (if 2 * ?n + 1 - c \<le> ?n then ''_a'' else ''_b'') else []))"
    by (rule sound_in_range)
  moreover have "(2 * ?n + 1 - c \<le> ?n) = (\<not> c \<le> ?n)" by auto
  ultimately have s2: "sound pairs alt (2 * ?n + 1 - c) =
           Some (pairs ! nat (pair_index ?n c) @ (if alt then (if c \<le> ?n then ''_b'' else ''_a'') else []))"
    using sym by simp
  have test: "\<forall>c2. 1 \<le> c2 \<and> c2 \<le> 2 * ?n \<longrightarrow>
             (c + c2 = 2 * ?n + 1 \<longleftrightarrow> c2 \<noteq> c \<and> pair_index ?n c2 = pair_index ?n c)"
    using assms by (auto simp: pair_index_def)
  from sym rng low s1 s2 test show ?thesis by blast
qed

section \<open>Script codes are only ever added\<close>

lemma assign_if_absent_keep: "codes k = Some v \<Longrightarrow> assign_if_absent name code codes k = Some v"
  by (auto simp: assign_if_absent_def split: option.splits)

lemma assign_if_absent_other: "k \<noteq> name \<Longrightarrow> assign_if_absent name code codes k = codes k"
  by (auto simp: assign_if_absent_def split: option.splits)

lemma assign_if_absent_new: "codes name = None \<Longrightarrow> assign_if_absent name code codes name = Some code"
  by (simp add: assign_if_absent_def)

lemma dom_assign_if_absent: "dom (assign_if_absent name code codes) = insert name (dom codes)"
  by (auto simp: assign_if_absent_def split: option.splits)

lemma player_codes_keep: "codes k = Some v \<Longrightarrow> player_codes ps code codes k = Some v"
  by (induction ps arbitrary: code codes) (simp_all add: assign_if_absent_keep)

lemma card_codes_keep: "codes k = Some v \<Longrightarrow> card_codes cs code codes k = Some v"
  by (induction cs arbitrary: code codes) (simp_all add: assign_if_absent_keep)

lemma other_codes_keep: "codes k = Some v \<Longrightarrow> other_codes ss code codes k = Some v"
proof (induction ss arbitrary: code codes)
  case Nil
  then show ?case by simp
next
  case (Cons s ss)
  show ?case
  proof (cases "codes s")
    case None
    with Cons.prems have "(codes(s \<mapsto> code)) k = Some v" by auto
    then show ?thesis using None by (simp add: Cons.IH)
  next
    case (Some old)
    then show ?thesis using Cons by simp
  qed
qed

lemma dom_player_codes:
  "dom (player_codes ps code codes) = (\<lambda>p. ''p'' @ str_nat (p + 1)) ` set ps \<union> dom codes"
  by (induction ps arbitrary: code codes) (auto simp: dom_assign_if_absent)

lemma dom_card_codes:
  "dom (card_codes cs code codes) = (\<lambda>c. ''c'' @ str_nat c) ` set cs \<union> dom codes"
  by (induction cs arbitrary: code codes) (auto simp: dom_assign_if_absent)

lemma dom_other_codes: "dom (other_codes ss code codes) = set ss \<union> dom codes"
  by (induction ss arbitrary: code codes) (auto split: option.splits)

lemma player_codes_other:
  "k \<notin> (\<lambda>p. ''p'' @ str_nat (p + 1)) ` set ps \<Longrightarrow> player_codes ps code codes k = codes k"
  by (induction ps arbitrary: code codes) (auto simp: assign_if_absent_other)

lemma card_codes_other:
  "k \<notin> (\<lambda>c. ''c'' @ str_nat c) ` set cs \<Longrightarrow> card_codes cs code codes k = codes k"
  by (induction cs arbitrary: code codes) (auto simp: assign_if_absent_other)

lemma player_codes_upt:
  "m \<le> p \<Longrightarrow> p < k \<Longrightarrow> codes (''p'' @ str_nat (p + 1)) = None \<Longrightarrow>
   player_codes [m..<k] code codes (''p'' @ str_nat (p + 1)) = Some (code + 1 + int (p - m))"
proof (induction "k - m" arbitrary: m code codes)
  case 0
  then show ?case by simp
next
  case (Suc d)
  then have upt: "[m..<k] = m # [Suc m..<k]" by (simp add: upt_conv_Cons)
  show ?case
  proof (cases "p = m")
    case True
    then show ?thesis using Suc.prems
      by (simp add: upt player_codes_keep assign_if_absent_new)
  next
    case False
    then have ne: "''p'' @ str_nat (p + 1) \<noteq> ''p'' @ str_nat (m + 1)"
      by (auto dest: str_nat_inj)
    have "player_codes [Suc m..<k] (code + 1)
            (assign_if_absent (''p'' @ str_nat (m + 1)) (code + 1) codes)
            (''p'' @ str_nat (p + 1)) = Some (code + 1 + 1 + int (p - Suc m))"
      using Suc False ne by (intro Suc.hyps(1)) (simp_all add: assign_if_absent_other)
    moreover have "1 + int (p - Suc m) = int (p - m)" using False Suc.prems by simp
    ultimately show ?thesis by (simp add: upt)
  qed
qed

lemma card_codes_upt:
  "m \<le> c \<Longrightarrow> c < k \<Longrightarrow> codes (''c'' @ str_nat c) = None \<Longrightarrow>
   card_codes [m..<k] code codes (''c'' @ str_nat c) = Some (code + int (c - m))"
proof (induction "k - m" arbitrary: m code codes)
  case 0
  then show ?case by simp
next
  case (Suc d)
  then have upt: "[m..<k] = m # [Suc m..<k]" by (simp add: upt_conv_Cons)
  show ?case
  proof (cases "c = m")
    case True
    then show ?thesis using Suc.prems
      by (simp add: upt card_codes_keep assign_if_absent_new)
  next
    case False
    then have ne: "''c'' @ str_nat c \<noteq> ''c'' @ str_nat m"
      by (auto dest: str_nat_inj)
    have "card_codes [Suc m..<k] (code + 1)
            (assign_if_absent (''c'' @ str_nat m) code codes)
            (''c'' @ str_nat c) = Some (code + 1 + int (c - Suc m))"
      using Suc False ne by (intro Suc.hyps(1)) (simp_all add: assign_if_absent_other)
    moreover have "1 + int (c - Suc m) = int (c - m)" using False Suc.prems by simp
    ultimately show ?thesis by (simp add: upt)
  qed
qed

lemma other_codes_new:
  "distinct ss \<Longrightarrow> i < length ss \<Longrightarrow> codes (ss ! i) = None \<Longrightarrow>
   other_codes ss code codes (ss ! i)
     = Some (code + int (length (filter (\<lambda>s. codes s = None) (take i ss))))"
proof (induction ss arbitrary: i code codes)
  case Nil
  then show ?case by simp
next
  case (Cons s ss)
  show ?case
  proof (cases i)
    case 0
    then show ?thesis using Cons.prems by (simp add: other_codes_keep)
  next
    case (Suc j)
    with Cons.prems have j: "j < length ss" and dj: "distinct ss" and sn: "s \<notin> set ss"
      and cj: "codes (ss ! j) = None" by simp_all
    have ne: "ss ! j \<noteq> s" using j sn by (metis nth_mem)
    have notin: "s \<notin> set (take j ss)" using sn by (meson in_set_takeD)
    show ?thesis
    proof (cases "codes s")
      case None
      have "filter (\<lambda>x. (codes(s \<mapsto> code)) x = None) (take j ss)
            = filter (\<lambda>x. codes x = None) (take j ss)"
        using notin by (intro filter_cong) auto
      moreover have "other_codes ss (code + 1) (codes(s \<mapsto> code)) (ss ! j)
          = Some (code + 1 + int (length (filter (\<lambda>x. (codes(s \<mapsto> code)) x = None) (take j ss))))"
        using j dj cj ne by (intro Cons.IH) simp_all
      ultimately show ?thesis using None Suc by simp
    next
      case (Some old)
      have "other_codes ss code codes (ss ! j)
          = Some (code + int (length (filter (\<lambda>x. codes x = None) (take j ss))))"
        using j dj cj by (intro Cons.IH)
      then show ?thesis using Some Suc by simp
    qed
  qed
qed

text \<open>
  Claim C2.  With a script-code table \<open>t\<close> in the template, every code of \<open>t\<close> is in the
  result unchanged; the result has codes for exactly the names of \<open>t\<close>, \<open>q\<close>, \<open>r\<close>, the
  player and card scripts and the listed script names; and a name that lacks a code gets
  2000 (\<open>q\<close>), 2001 (\<open>r\<close>), 2002 onwards (players), 3000 onwards (cards), and the other
  scripts 4000 onwards in order, counting only the names that get a new code.
\<close>

theorem scriptcodes_merge_only:
  "(\<forall>k v. t k = Some v \<longrightarrow> scriptcodes (Some t) players numCards names k = Some v)
   \<and> dom (scriptcodes (Some t) players numCards names)
       = dom t \<union> {''q'', ''r''} \<union> (\<lambda>p. ''p'' @ str_nat (p + 1)) ` {0..<players}
         \<union> (\<lambda>c. ''c'' @ str_nat c) ` {0..<numCards} \<union> set names
   \<and> (t ''q'' = None \<longrightarrow> scriptcodes (Some t) players numCards names ''q'' = Some 2000)
   \<and> (t ''r'' = None \<longrightarrow> scriptcodes (Some t) players numCards names ''r'' = Some 2001)
   \<and> (\<forall>p<players. t (''p'' @ str_nat (p + 1)) = None \<longrightarrow>
         scriptcodes (Some t) players numCards names (''p'' @ str_nat (p + 1))
           = Some (2002 + int p))
   \<and> (\<forall>c<numCards. t (''c'' @ str_nat c) = None \<longrightarrow>
         scriptcodes (Some t) players numCards names (''c'' @ str_nat c) = Some (3000 + int c))
   \<and> (distinct names \<longrightarrow>
        (\<forall>i<length names. scriptcodes (Some t) players numCards [] (names ! i) = None \<longrightarrow>
           scriptcodes (Some t) players numCards names (names ! i)
             = Some (4000 + int (length (filter
                  (\<lambda>s. scriptcodes (Some t) players numCards [] s = None) (take i names))))))"
proof -
  let ?c1 = "assign_if_absent ''q'' 2000 t"
  let ?c2 = "assign_if_absent ''r'' 2001 ?c1"
  let ?c3 = "player_codes [0..<players] 2001 ?c2"
  let ?c4 = "card_codes [0..<numCards] 3000 ?c3"
  have res: "scriptcodes (Some t) players numCards names = other_codes names 4000 ?c4"
    for names
    by (simp add: scriptcodes_def Let_def)
  have keep: "\<forall>k v. t k = Some v \<longrightarrow> scriptcodes (Some t) players numCards names k = Some v"
    by (simp add: res other_codes_keep card_codes_keep player_codes_keep assign_if_absent_keep)
  have dm: "dom (scriptcodes (Some t) players numCards names)
       = dom t \<union> {''q'', ''r''} \<union> (\<lambda>p. ''p'' @ str_nat (p + 1)) ` {0..<players}
         \<union> (\<lambda>c. ''c'' @ str_nat c) ` {0..<numCards} \<union> set names"
    by (auto simp: res dom_other_codes dom_card_codes dom_player_codes dom_assign_if_absent)
  have q: "t ''q'' = None \<longrightarrow> scriptcodes (Some t) players numCards names ''q'' = Some 2000"
    by (simp add: res other_codes_keep card_codes_keep player_codes_keep assign_if_absent_keep
          assign_if_absent_new)
  have r: "t ''r'' = None \<longrightarrow> scriptcodes (Some t) players numCards names ''r'' = Some 2001"
    by (simp add: res other_codes_keep card_codes_keep player_codes_keep
          assign_if_absent_new assign_if_absent_other)
  have p: "\<forall>p<players. t (''p'' @ str_nat (p + 1)) = None \<longrightarrow>
         scriptcodes (Some t) players numCards names (''p'' @ str_nat (p + 1))
           = Some (2002 + int p)"
  proof (intro allI impI)
    fix p assume lt: "p < players" and ab: "t (''p'' @ str_nat (p + 1)) = None"
    have "?c2 (''p'' @ str_nat (p + 1)) = None"
      using ab by (simp add: assign_if_absent_other)
    then have "?c3 (''p'' @ str_nat (p + 1)) = Some (2001 + 1 + int (p - 0))"
      using lt by (intro player_codes_upt) simp_all
    then show "scriptcodes (Some t) players numCards names (''p'' @ str_nat (p + 1))
           = Some (2002 + int p)"
      by (simp add: res other_codes_keep card_codes_keep)
  qed
  have c: "\<forall>c<numCards. t (''c'' @ str_nat c) = None \<longrightarrow>
         scriptcodes (Some t) players numCards names (''c'' @ str_nat c) = Some (3000 + int c)"
  proof (intro allI impI)
    fix c assume lt: "c < numCards" and ab: "t (''c'' @ str_nat c) = None"
    have c2: "?c2 (''c'' @ str_nat c) = None"
      using ab by (simp add: assign_if_absent_other)
    have "''c'' @ str_nat c \<notin> (\<lambda>p. ''p'' @ str_nat (p + 1)) ` set [0..<players]"
      by auto
    then have "?c3 (''c'' @ str_nat c) = ?c2 (''c'' @ str_nat c)"
      by (rule player_codes_other)
    with c2 have "?c3 (''c'' @ str_nat c) = None"
      by simp
    then have "?c4 (''c'' @ str_nat c) = Some (3000 + int (c - 0))"
      using lt by (intro card_codes_upt) simp_all
    then show "scriptcodes (Some t) players numCards names (''c'' @ str_nat c) = Some (3000 + int c)"
      by (simp add: res other_codes_keep)
  qed
  have o: "distinct names \<longrightarrow>
        (\<forall>i<length names. scriptcodes (Some t) players numCards [] (names ! i) = None \<longrightarrow>
           scriptcodes (Some t) players numCards names (names ! i)
             = Some (4000 + int (length (filter
                  (\<lambda>s. scriptcodes (Some t) players numCards [] s = None) (take i names)))))"
    by (simp add: res other_codes_new)
  from keep dm q r p c o show ?thesis by blast
qed

theorem scriptcodes_merge_only_witness:
  "scriptcodes (Some [''q'' \<mapsto> 7, ''c1'' \<mapsto> 9]) 2 2 [''idle'', ''p1'', ''q'', ''shuffle''] ''q'' = Some 7
   \<and> scriptcodes (Some [''q'' \<mapsto> 7, ''c1'' \<mapsto> 9]) 2 2 [''idle'', ''p1'', ''q'', ''shuffle''] ''c1'' = Some 9
   \<and> scriptcodes (Some [''q'' \<mapsto> 7, ''c1'' \<mapsto> 9]) 2 2 [''idle'', ''p1'', ''q'', ''shuffle''] ''r'' = Some 2001
   \<and> scriptcodes (Some [''q'' \<mapsto> 7, ''c1'' \<mapsto> 9]) 2 2 [''idle'', ''p1'', ''q'', ''shuffle''] ''p2'' = Some 2003
   \<and> scriptcodes (Some [''q'' \<mapsto> 7, ''c1'' \<mapsto> 9]) 2 2 [''idle'', ''p1'', ''q'', ''shuffle''] ''c0'' = Some 3000
   \<and> scriptcodes (Some [''q'' \<mapsto> 7, ''c1'' \<mapsto> 9]) 2 2 [''idle'', ''p1'', ''q'', ''shuffle''] ''shuffle'' = Some 4001"
proof -
  let ?t = "[''q'' \<mapsto> 7, ''c1'' \<mapsto> (9::int)]"
  let ?names = "[''idle'', ''p1'', ''q'', ''shuffle'']"
  note T = scriptcodes_merge_only [of ?t 2 2 ?names]
  note keep = T [THEN conjunct1]
  note q_r = T [THEN conjunct2, THEN conjunct2]
  note r_new = q_r [THEN conjunct2, THEN conjunct1]
  note p_new = q_r [THEN conjunct2, THEN conjunct2, THEN conjunct1]
  note c_new = q_r [THEN conjunct2, THEN conjunct2, THEN conjunct2, THEN conjunct1]
  note o_new = q_r [THEN conjunct2, THEN conjunct2, THEN conjunct2, THEN conjunct2]
  have p2: "''p'' @ str_nat (1 + 1) = ''p2''" and c0: "''c'' @ str_nat 0 = ''c0''"
    by code_simp+
  have base: "scriptcodes (Some ?t) 2 2 [] ''idle'' = None"
     "scriptcodes (Some ?t) 2 2 [] ''p1'' \<noteq> None"
     "scriptcodes (Some ?t) 2 2 [] ''q'' \<noteq> None"
     "scriptcodes (Some ?t) 2 2 [] ''shuffle'' = None"
    by code_simp+
  have "?t ''q'' = Some 7" and "?t ''c1'' = Some 9" by simp_all
  with keep have a: "scriptcodes (Some ?t) 2 2 ?names ''q'' = Some 7"
    and b: "scriptcodes (Some ?t) 2 2 ?names ''c1'' = Some 9" by blast+
  have "?t ''r'' = None" by simp
  with r_new have c: "scriptcodes (Some ?t) 2 2 ?names ''r'' = Some 2001" by blast
  have "?t (''p'' @ str_nat (1 + 1)) = None" unfolding p2 by simp
  moreover have "(1::nat) < 2" by simp
  ultimately have "scriptcodes (Some ?t) 2 2 ?names (''p'' @ str_nat (1 + 1)) = Some (2002 + int 1)"
    using p_new by blast
  then have "scriptcodes (Some ?t) 2 2 ?names ''p2'' = Some (2002 + int 1)" unfolding p2 .
  then have d: "scriptcodes (Some ?t) 2 2 ?names ''p2'' = Some 2003" by simp
  have "?t (''c'' @ str_nat 0) = None" unfolding c0 by simp
  moreover have "(0::nat) < 2" by simp
  ultimately have "scriptcodes (Some ?t) 2 2 ?names (''c'' @ str_nat 0) = Some (3000 + int 0)"
    using c_new by blast
  then have "scriptcodes (Some ?t) 2 2 ?names ''c0'' = Some (3000 + int 0)" unfolding c0 .
  then have e: "scriptcodes (Some ?t) 2 2 ?names ''c0'' = Some 3000" by simp
  have "distinct ?names" and "3 < length ?names" and "?names ! 3 = ''shuffle''" by simp_all
  moreover have "scriptcodes (Some ?t) 2 2 [] (?names ! 3) = None" using base by simp
  ultimately have "scriptcodes (Some ?t) 2 2 ?names (?names ! 3)
             = Some (4000 + int (length (filter
                  (\<lambda>s. scriptcodes (Some ?t) 2 2 [] s = None) (take 3 ?names))))"
    using o_new by blast
  moreover have "take 3 ?names = [''idle'', ''p1'', ''q'']" by (simp add: numeral_3_eq_3)
  ultimately have f: "scriptcodes (Some ?t) 2 2 ?names ''shuffle'' = Some 4001"
    using base by simp
  from a b c d e f show ?thesis by blast
qed

section \<open>The generated script table\<close>

lemma those_map_Some: "(\<And>x. x \<in> set xs \<Longrightarrow> g x = Some (h x)) \<Longrightarrow> those (map g xs) = Some (map h xs)"
  by (induction xs) simp_all

lemma sound_lines_eq:
  "sound_lines pairs alt f
     = Some (map (\<lambda>c. f c (the (sound pairs alt (int c)))) [1..<length pairs * 2 + 1])"
proof -
  have "map_option (f c) (sound pairs alt (int c)) = Some (f c (the (sound pairs alt (int c))))"
    if "c \<in> set [1..<length pairs * 2 + 1]" for c
  proof -
    from that have "1 \<le> int c" and "int c \<le> 2 * int (length pairs)" by auto
    then show ?thesis by (simp add: sound_in_range)
  qed
  then show ?thesis unfolding sound_lines_def by (rule those_map_Some)
qed

text \<open>The script table before the restart scripts, written out.\<close>

lemma base_scripts_eq:
  "base_scripts players pairs alt lang = Inr (
     [(''idle'', Str idle)]
     @ map (\<lambda>p. (''p'' @ str_nat p, Lst (player_lines lang (length pairs) p))) [1..<players + 1]
     @ [(''q'', Lst (question lang players)),
        (''r'', Lst ([[Cond ''busy'' Eq (Num 0), Cond ''remaining'' Eq (Num 0),
                      Cmd ''busy'' Set (Num 1), Jump ''restart0'', Play ''nop'']]
              @ map (\<lambda>c. [Cond ''busy'' Eq (Num 0), Cond ''lastCard'' Eq (Num c),
                            Cmd ''busy'' Set (Num 1), Jump ''idle'',
                            Play (the (sound pairs alt (int c)))])
                    [1..<length pairs * 2 + 1])),
        (''shuffle'', Str (shuffle (length pairs * 2)))]
     @ shuffle_family lang (length pairs * 2)
     @ card_family lang (length pairs * 2)
     @ [(''firstCard'', Lst (map (\<lambda>c. [Cond ''card1'' Eq (Num c), Jump ''idle'',
                                         Play (the (sound pairs alt (int c)))])
                                 [1..<length pairs * 2 + 1])),
        (''secondCard'', Lst (map (\<lambda>c. [Cond ''card2'' Eq (Num c),
                                          Cmd ''sum'' Set (Reg ''card1''),
                                          Cmd ''sum'' Add (Reg ''card2''),
                                          Cmd ''card1'' Set (Num 0), Cmd ''card2'' Set (Num 0),
                                          Jump ''test'', Play (the (sound pairs alt (int c)))])
                                  [1..<length pairs * 2 + 1])),
        (''test'', Lst (test lang (length pairs * 2) players)),
        (''clear1'', Lst (clear1 lang (length pairs * 2))),
        (''clear2'', Lst (clear2 lang (length pairs * 2)))])"
  by (simp add: base_scripts_def repeat_script_def firstCard_def secondCard_def
        sound_lines_eq Let_def)

lemma update_key_set: "fst ` set (AList.update k v al) = insert k (fst ` set al)"
  by (induction al) auto

lemma add_variable_keys: "fst ` set (add_variable name vs) = insert name (fst ` set vs)"
  by (auto simp: add_variable_def update_key_set)

lemma fold_add_variable_keys: "fst ` set (fold add_variable ns vs) = set ns \<union> fst ` set vs"
  by (induction ns arbitrary: vs) (simp_all add: add_variable_keys)

lemma distinct_add_variable: "distinct (map fst vs) \<Longrightarrow> distinct (map fst (add_variable name vs))"
  by (simp add: add_variable_def distinct_update)

lemma distinct_fold_add_variable:
  "distinct (map fst vs) \<Longrightarrow> distinct (map fst (fold add_variable ns vs))"
  by (induction ns arbitrary: vs) (simp_all add: distinct_add_variable)

lemma distinct_fold_update:
  "distinct (map fst vs) \<Longrightarrow>
   distinct (map fst (fold (\<lambda>(name, v). AList.update name (Txt v)) xs vs))"
  by (induction xs arbitrary: vs) (auto simp: distinct_update)

lemma distinct_variables: "distinct (map fst (variables init prog))"
  by (simp add: variables_def distinct_fold_add_variable distinct_fold_update)

lemma findall_var_busy:
  "findall_var (''$busy=='' @ rest) = ''busy'' # findall_var (''=='' @ rest)"
  by (simp add: alnum_def)

lemma busy_in_variables:
  assumes "(''q'', Lst (question lang players)) \<in> set prog"
  shows "''busy'' \<in> set (map fst (variables init prog))"
proof -
  let ?l = "[Cond ''busy'' Eq (Num 0), Cond ''players'' Eq (Num 0), Cmd ''busy'' Set (Num 1),
       Jump ''idle'', Play (lang @ ''_not_started'')]"
  have "render_line ?l = ''$busy=='' @ drop 7 (render_line ?l)"
    by (simp add: render_line_def)
  then have "''busy'' \<in> set (findall_var (render_line ?l))"
    by (metis findall_var_busy list.set_intros(1))
  moreover have "render_line ?l \<in> set (script_iter (Lst (question lang players)))"
    by (simp add: question_def)
  ultimately have "''busy'' \<in> set (concat (map findall_var
       (concat (map (\<lambda>(name, script). script_iter script) prog))))"
    using assms by fastforce
  then have "''busy'' \<in> fst ` set (variables init prog)"
    unfolding variables_def fold_add_variable_keys by (rule UnI1)
  then show ?thesis by simp
qed

lemma scripts_eq:
  assumes "base_scripts players pairs alt lang = Inr B"
  shows "scripts players pairs alt lang (Some w)
     = Inr (B @ restart_loop (AList.delete ''busy'' (variables (init_line (length pairs)) B))
                  0 [] 0 w)"
proof -
  have "(''q'', Lst (question lang players)) \<in> set B"
    using assms unfolding base_scripts_eq by auto
  then have "''busy'' \<in> set (map fst (variables (init_line (length pairs)) B))"
    by (rule busy_in_variables)
  then show ?thesis using assms by (simp add: scripts_def del_busy_def)
qed

lemma scripts_total: "\<exists>prog. scripts players pairs alt lang (Some w) = Inr prog"
  using scripts_eq [OF base_scripts_eq] by blast

lemma restart_loop_shape:
  assumes "length cmd \<le> 6" and "count = length cmd"
    and "(name, s) \<in> set (restart_loop vs count cmd i w)"
  shows "\<exists>cs k. name = ''restart'' @ str_nat k \<and> i \<le> k \<and> length cs \<le> 6
           \<and> set cs \<subseteq> set cmd \<union> (\<lambda>v. Cmd (fst v) Set (snd v)) ` set vs
           \<and> (s = Str (cs @ [Jump (''restart'' @ str_nat (k + 1)), Play ''nop''])
                \<or> s = Str (cs @ [Jump ''idle'', Play w]))"
  using assms
proof (induction vs arbitrary: count cmd i)
  case Nil
  then show ?case by auto
next
  case (Cons v vs)
  show ?case
  proof (cases "count = 6")
    case True
    from Cons.prems(3) True
    consider "name = ''restart'' @ str_nat i"
        "s = Str (cmd @ [Jump (''restart'' @ str_nat (i + 1)), Play ''nop''])"
      | "(name, s) \<in> set (restart_loop vs 1 [Cmd (fst v) Set (snd v)] (i + 1) w)"
      by auto
    then show ?thesis
    proof cases
      case 1
      then show ?thesis using Cons.prems(1) by auto
    next
      case 2
      have "\<exists>cs k. name = ''restart'' @ str_nat k \<and> i + 1 \<le> k \<and> length cs \<le> 6
           \<and> set cs \<subseteq> set [Cmd (fst v) Set (snd v)] \<union> (\<lambda>v. Cmd (fst v) Set (snd v)) ` set vs
           \<and> (s = Str (cs @ [Jump (''restart'' @ str_nat (k + 1)), Play ''nop''])
                \<or> s = Str (cs @ [Jump ''idle'', Play w]))"
        by (rule Cons.IH [OF _ _ 2]) simp_all
      then obtain cs k where "name = ''restart'' @ str_nat k" "i + 1 \<le> k" "length cs \<le> 6"
          "set cs \<subseteq> set [Cmd (fst v) Set (snd v)] \<union> (\<lambda>v. Cmd (fst v) Set (snd v)) ` set vs"
          "s = Str (cs @ [Jump (''restart'' @ str_nat (k + 1)), Play ''nop''])
                \<or> s = Str (cs @ [Jump ''idle'', Play w])"
        by blast
      then show ?thesis
        by (intro exI[of _ cs] exI[of _ k]) auto
    qed
  next
    case False
    with Cons.prems have in': "(name, s) \<in> set (restart_loop vs (count + 1)
         (cmd @ [Cmd (fst v) Set (snd v)]) i w)"
      and len: "length (cmd @ [Cmd (fst v) Set (snd v)]) \<le> 6"
      by simp_all
    have "\<exists>cs k. name = ''restart'' @ str_nat k \<and> i \<le> k \<and> length cs \<le> 6
           \<and> set cs \<subseteq> set (cmd @ [Cmd (fst v) Set (snd v)]) \<union> (\<lambda>v. Cmd (fst v) Set (snd v)) ` set vs
           \<and> (s = Str (cs @ [Jump (''restart'' @ str_nat (k + 1)), Play ''nop''])
                \<or> s = Str (cs @ [Jump ''idle'', Play w]))"
      using Cons.prems(2) by (intro Cons.IH [OF len _ in']) simp
    then obtain cs k where "name = ''restart'' @ str_nat k" "i \<le> k" "length cs \<le> 6"
          "set cs \<subseteq> set (cmd @ [Cmd (fst v) Set (snd v)]) \<union> (\<lambda>v. Cmd (fst v) Set (snd v)) ` set vs"
          "s = Str (cs @ [Jump (''restart'' @ str_nat (k + 1)), Play ''nop''])
                \<or> s = Str (cs @ [Jump ''idle'', Play w])"
      by blast
    then show ?thesis
      by (intro exI[of _ cs] exI[of _ k]) auto
  qed
qed

lemma findall_var_alnum: "n \<in> set (findall_var s) \<Longrightarrow> n \<noteq> [] \<and> list_all alnum n"
proof (induction s rule: findall_var.induct)
  case 1
  then show ?case by simp
next
  case (2 ch cs)
  then show ?case
    by (auto simp: list_all_iff split: if_splits dest: set_takeWhileD)
qed

lemma match_init_wf:
  "match_init cs = Some (n, v, rest) \<Longrightarrow>
     n \<noteq> [] \<and> list_all alnum n \<and> v \<noteq> [] \<and> list_all digit v"
  by (auto simp: match_init_def Let_def list_all_iff split: if_splits dest: set_takeWhileD)

lemma findall_init_wf:
  "(n, v) \<in> set (findall_init s) \<Longrightarrow>
     n \<noteq> [] \<and> list_all alnum n \<and> v \<noteq> [] \<and> list_all digit v"
proof (induction s rule: findall_init.induct)
  case 1
  then show ?case by simp
next
  case (2 ch cs)
  show ?case
  proof (cases "ch = CHR ''$''")
    case False
    then show ?thesis using "2.IH" "2.prems" by simp
  next
    case True
    show ?thesis
    proof (cases "match_init cs")
      case None
      then show ?thesis using "2.IH" "2.prems" True by simp
    next
      case (Some t)
      obtain n' v' rest where t: "t = (n', v', rest)" by (cases t)
      from "2.prems" True Some t
      have "(n, v) = (n', v') \<or> (n, v) \<in> set (findall_init rest)" by simp
      then show ?thesis
      proof
        assume "(n, v) = (n', v')"
        then show ?thesis using match_init_wf Some t by blast
      next
        assume "(n, v) \<in> set (findall_init rest)"
        then show ?thesis using "2.IH" True Some t by simp
      qed
    qed
  qed
qed

lemma update_set: "x \<in> set (AList.update k v al) \<Longrightarrow> x = (k, v) \<or> x \<in> set al"
  by (induction al) (auto split: if_splits)

lemma fold_update_wf:
  "(\<And>x. x \<in> set vs \<Longrightarrow> wf_var x) \<Longrightarrow>
   (\<And>n v. (n, v) \<in> set xs \<Longrightarrow> n \<noteq> [] \<and> list_all alnum n \<and> v \<noteq> [] \<and> list_all digit v) \<Longrightarrow>
   x \<in> set (fold (\<lambda>(name, v). AList.update name (Txt v)) xs vs) \<Longrightarrow> wf_var x"
proof (induction xs arbitrary: vs)
  case Nil
  then show ?case by simp
next
  case (Cons a xs)
  obtain n v where a: "a = (n, v)" by (cases a)
  have "wf_var y" if "y \<in> set (AList.update n (Txt v) vs)" for y
  proof -
    from that have "y = (n, Txt v) \<or> y \<in> set vs" by (rule update_set)
    then show ?thesis
    proof
      assume "y = (n, Txt v)"
      then show ?thesis using Cons.prems(2)[of n v] a by (simp add: wf_var_def)
    next
      assume "y \<in> set vs"
      then show ?thesis by (rule Cons.prems(1))
    qed
  qed
  then show ?case using Cons.prems(2,3) a
    by (intro Cons.IH[of "AList.update n (Txt v) vs"]) auto
qed

lemma fold_add_variable_wf:
  "(\<And>x. x \<in> set vs \<Longrightarrow> wf_var x) \<Longrightarrow>
   (\<And>n. n \<in> set ns \<Longrightarrow> n \<noteq> [] \<and> list_all alnum n) \<Longrightarrow>
   x \<in> set (fold add_variable ns vs) \<Longrightarrow> wf_var x"
proof (induction ns arbitrary: vs)
  case Nil
  then show ?case by simp
next
  case (Cons n ns)
  have "wf_var y" if "y \<in> set (add_variable n vs)" for y
  proof -
    from that have "y = (n, Num 0) \<or> y \<in> set vs"
      by (auto simp: add_variable_def dest: update_set split: if_splits)
    then show ?thesis
    proof
      assume "y = (n, Num 0)"
      then show ?thesis using Cons.prems(2)[of n] by (simp add: wf_var_def)
    next
      assume "y \<in> set vs"
      then show ?thesis by (rule Cons.prems(1))
    qed
  qed
  then show ?case using Cons.prems(2,3)
    by (intro Cons.IH[of "add_variable n vs"]) auto
qed

lemma variables_wf: "x \<in> set (variables init prog) \<Longrightarrow> wf_var x"
  unfolding variables_def
  by (erule fold_add_variable_wf[rotated 2], erule fold_update_wf[rotated 2])
     (auto dest: findall_init_wf findall_var_alnum)

lemma delete_set: "x \<in> set (AList.delete k al) \<Longrightarrow> x \<in> set al \<and> fst x \<noteq> k"
  by (auto simp: AList.delete_eq)

lemma restart_lines:
  assumes "(name, s) \<in> set (restart_loop (AList.delete ''busy'' (variables init B)) 0 [] 0 w)"
  shows "\<exists>cs k. name = ''restart'' @ str_nat k \<and> length cs \<le> 6
           \<and> (\<forall>t\<in>set cs. \<exists>n v. t = Cmd n Set v \<and> n \<noteq> ''busy'' \<and> wf_var (n, v))
           \<and> (s = Str (cs @ [Jump (''restart'' @ str_nat (k + 1)), Play ''nop''])
                \<or> s = Str (cs @ [Jump ''idle'', Play w]))"
proof -
  let ?vs = "AList.delete ''busy'' (variables init B)"
  from restart_loop_shape [OF _ _ assms]
  obtain cs k where a: "name = ''restart'' @ str_nat k" "length cs \<le> 6"
      "set cs \<subseteq> set [] \<union> (\<lambda>v. Cmd (fst v) Set (snd v)) ` set ?vs"
      "s = Str (cs @ [Jump (''restart'' @ str_nat (k + 1)), Play ''nop''])
                \<or> s = Str (cs @ [Jump ''idle'', Play w])"
    by auto
  have "\<exists>n v. t = Cmd n Set v \<and> n \<noteq> ''busy'' \<and> wf_var (n, v)" if "t \<in> set cs" for t
  proof -
    from that a(3) obtain x where x: "x \<in> set ?vs" "t = Cmd (fst x) Set (snd x)" by auto
    from x(1) have "x \<in> set (variables init B)" and "fst x \<noteq> ''busy''"
      by (auto dest: delete_set)
    then show ?thesis using x(2) variables_wf[of x init B] by auto
  qed
  with a show ?thesis by blast
qed

lemma program_lines:
  assumes "scripts players pairs alt lang (Some w) = Inr prog"
    and "(name, sc) \<in> set prog" and "l \<in> set (script_lines sc)"
  obtains
    (idle) "name = ''idle''" "l = idle"
  | (player) p where "1 \<le> p" "p \<le> players" "name = ''p'' @ str_nat p"
      "l \<in> set (player_lines lang (length pairs) p)"
  | (question) "name = ''q''" "l \<in> set (question lang players)"
  | (repeat0) "name = ''r''"
      "l = [Cond ''busy'' Eq (Num 0), Cond ''remaining'' Eq (Num 0),
            Cmd ''busy'' Set (Num 1), Jump ''restart0'', Play ''nop'']"
  | (repeat) c s where "name = ''r''" "1 \<le> c" "c \<le> length pairs * 2"
      "sound pairs alt (int c) = Some s"
      "l = [Cond ''busy'' Eq (Num 0), Cond ''lastCard'' Eq (Num c),
            Cmd ''busy'' Set (Num 1), Jump ''idle'', Play s]"
  | (shuffle) "name = ''shuffle''" "l = shuffle (length pairs * 2)"
  | (shuffle_state) pos1 where "pos1 < length pairs * 2 - 1" "name = ''shuffle'' @ str_nat pos1"
      "l \<in> set (shuffle_lines lang (length pairs * 2) pos1)"
  | (card) c where "c < length pairs * 2" "name = ''c'' @ str_nat c" "l \<in> set (card_lines lang c)"
  | (firstCard) c s where "name = ''firstCard''" "1 \<le> c" "c \<le> length pairs * 2"
      "sound pairs alt (int c) = Some s"
      "l = [Cond ''card1'' Eq (Num c), Jump ''idle'', Play s]"
  | (secondCard) c s where "name = ''secondCard''" "1 \<le> c" "c \<le> length pairs * 2"
      "sound pairs alt (int c) = Some s"
      "l = [Cond ''card2'' Eq (Num c), Cmd ''sum'' Set (Reg ''card1''),
            Cmd ''sum'' Add (Reg ''card2''), Cmd ''card1'' Set (Num 0),
            Cmd ''card2'' Set (Num 0), Jump ''test'', Play s]"
  | (test) "name = ''test''" "l \<in> set (test lang (length pairs * 2) players)"
  | (clear1) "name = ''clear1''" "l \<in> set (clear1 lang (length pairs * 2))"
  | (clear2) "name = ''clear2''" "l \<in> set (clear2 lang (length pairs * 2))"
  | (restart) cs k j p where "name = ''restart'' @ str_nat k" "length cs \<le> 6"
      "\<forall>t\<in>set cs. \<exists>n v. t = Cmd n Set v \<and> n \<noteq> ''busy'' \<and> wf_var (n, v)"
      "l = cs @ [Jump j, Play p]"
      "(j = ''restart'' @ str_nat (k + 1) \<and> p = ''nop'') \<or> (j = ''idle'' \<and> p = w)"
proof -
  obtain B where B: "base_scripts players pairs alt lang = Inr B"
    using base_scripts_eq by blast
  let ?R = "restart_loop (AList.delete ''busy'' (variables (init_line (length pairs)) B)) 0 [] 0 w"
  have prog: "prog = B @ ?R" using scripts_eq [OF B, of w] assms(1) by simp
  have snd: "sound pairs alt (int c) = Some (the (sound pairs alt (int c)))"
    if "1 \<le> c" "c \<le> length pairs * 2" for c
    using that sound_in_range [of "int c" pairs alt] by simp
  from assms(2) prog consider (b) "(name, sc) \<in> set B" | (r) "(name, sc) \<in> set ?R" by auto
  then show thesis
  proof cases
    case r
    from restart_lines [OF r] obtain cs k where
      a: "name = ''restart'' @ str_nat k" "length cs \<le> 6"
         "\<forall>t\<in>set cs. \<exists>n v. t = Cmd n Set v \<and> n \<noteq> ''busy'' \<and> wf_var (n, v)"
         "sc = Str (cs @ [Jump (''restart'' @ str_nat (k + 1)), Play ''nop''])
            \<or> sc = Str (cs @ [Jump ''idle'', Play w])"
      by blast
    from a(4) assms(3) consider
        "l = cs @ [Jump (''restart'' @ str_nat (k + 1)), Play ''nop'']"
      | "l = cs @ [Jump ''idle'', Play w]" by auto
    then show thesis
    proof cases
      case 1
      show ?thesis by (rule restart[OF a(1,2,3) 1]) simp
    next
      case 2
      show ?thesis by (rule restart[OF a(1,2,3) 2]) simp
    qed
  next
    case b
    let ?r = "Lst ([[Cond ''busy'' Eq (Num 0), Cond ''remaining'' Eq (Num 0),
                      Cmd ''busy'' Set (Num 1), Jump ''restart0'', Play ''nop'']]
              @ map (\<lambda>c. [Cond ''busy'' Eq (Num 0), Cond ''lastCard'' Eq (Num c),
                            Cmd ''busy'' Set (Num 1), Jump ''idle'',
                            Play (the (sound pairs alt (int c)))])
                    [1..<length pairs * 2 + 1])"
    let ?fc = "Lst (map (\<lambda>c. [Cond ''card1'' Eq (Num c), Jump ''idle'',
                                  Play (the (sound pairs alt (int c)))])
                       [1..<length pairs * 2 + 1])"
    let ?sc = "Lst (map (\<lambda>c. [Cond ''card2'' Eq (Num c), Cmd ''sum'' Set (Reg ''card1''),
                                  Cmd ''sum'' Add (Reg ''card2''),
                                  Cmd ''card1'' Set (Num 0), Cmd ''card2'' Set (Num 0),
                                  Jump ''test'', Play (the (sound pairs alt (int c)))])
                       [1..<length pairs * 2 + 1])"
    note Beq = B [unfolded base_scripts_eq sum.inject, symmetric]
    from b [unfolded Beq] have
      "(name, sc) \<in> set [(''idle'', Str idle)]
       \<or> (name, sc) \<in> set (map (\<lambda>p. (''p'' @ str_nat p, Lst (player_lines lang (length pairs) p)))
              [1..<players + 1])
       \<or> (name, sc) \<in> set [(''q'', Lst (question lang players)), (''r'', ?r),
              (''shuffle'', Str (shuffle (length pairs * 2)))]
       \<or> (name, sc) \<in> set (shuffle_family lang (length pairs * 2))
       \<or> (name, sc) \<in> set (card_family lang (length pairs * 2))
       \<or> (name, sc) \<in> set [(''firstCard'', ?fc), (''secondCard'', ?sc),
              (''test'', Lst (test lang (length pairs * 2) players)),
              (''clear1'', Lst (clear1 lang (length pairs * 2))),
              (''clear2'', Lst (clear2 lang (length pairs * 2)))]"
      by (simp only: set_append Un_iff)
    then show thesis
    proof (elim disjE)
      assume "(name, sc) \<in> set [(''idle'', Str idle)]"
      then have "name = ''idle''" "l = idle" using assms(3) by simp_all
      then show thesis by (rule idle)
    next
      assume "(name, sc) \<in> set (map (\<lambda>p. (''p'' @ str_nat p,
                 Lst (player_lines lang (length pairs) p))) [1..<players + 1])"
      then obtain p where "1 \<le> p" "p \<le> players" "name = ''p'' @ str_nat p"
          "sc = Lst (player_lines lang (length pairs) p)" by auto
      then show thesis using assms(3) by (intro player[of p]) simp_all
    next
      assume "(name, sc) \<in> set [(''q'', Lst (question lang players)), (''r'', ?r),
              (''shuffle'', Str (shuffle (length pairs * 2)))]"
      then consider "name = ''q''" "sc = Lst (question lang players)"
        | "name = ''r''" "sc = ?r"
        | "name = ''shuffle''" "sc = Str (shuffle (length pairs * 2))"
        by (simp only: set_simps insert_iff empty_iff prod.inject) argo
      then show thesis
      proof cases
        case 1
        then show ?thesis using assms(3) by (intro question) simp_all
      next
        case 2
        with assms(3) have "l \<in> set ([[Cond ''busy'' Eq (Num 0), Cond ''remaining'' Eq (Num 0),
                      Cmd ''busy'' Set (Num 1), Jump ''restart0'', Play ''nop'']]
              @ map (\<lambda>c. [Cond ''busy'' Eq (Num 0), Cond ''lastCard'' Eq (Num c),
                            Cmd ''busy'' Set (Num 1), Jump ''idle'',
                            Play (the (sound pairs alt (int c)))])
                    [1..<length pairs * 2 + 1])" by simp
        then consider "l = [Cond ''busy'' Eq (Num 0), Cond ''remaining'' Eq (Num 0),
                      Cmd ''busy'' Set (Num 1), Jump ''restart0'', Play ''nop'']"
          | c where "1 \<le> c" "c \<le> length pairs * 2"
            "l = [Cond ''busy'' Eq (Num 0), Cond ''lastCard'' Eq (Num c),
                            Cmd ''busy'' Set (Num 1), Jump ''idle'',
                            Play (the (sound pairs alt (int c)))]"
          by auto
        then show ?thesis
        proof cases
          case 1
          with 2(1) show ?thesis by (rule repeat0)
        next
          case (2 c)
          from \<open>name = ''r''\<close> 2(1,2) snd[OF 2(1,2)] 2(3) show ?thesis by (rule repeat)
        qed
      next
        case 3
        then show ?thesis using assms(3) by (intro shuffle) simp_all
      qed
    next
      assume "(name, sc) \<in> set (shuffle_family lang (length pairs * 2))"
      then obtain pos1 where "pos1 < length pairs * 2 - 1" "name = ''shuffle'' @ str_nat pos1"
        "sc = Lst (shuffle_lines lang (length pairs * 2) pos1)"
        by (auto simp: shuffle_family_def)
      then show thesis using assms(3) by (intro shuffle_state[of pos1]) simp_all
    next
      assume "(name, sc) \<in> set (card_family lang (length pairs * 2))"
      then obtain c where "c < length pairs * 2" "name = ''c'' @ str_nat c"
        "sc = Lst (card_lines lang c)"
        by (auto simp: card_family_def)
      then show thesis using assms(3) by (intro card[of c]) simp_all
    next
      assume "(name, sc) \<in> set [(''firstCard'', ?fc), (''secondCard'', ?sc),
              (''test'', Lst (test lang (length pairs * 2) players)),
              (''clear1'', Lst (clear1 lang (length pairs * 2))),
              (''clear2'', Lst (clear2 lang (length pairs * 2)))]"
      then consider "name = ''firstCard''" "sc = ?fc"
        | "name = ''secondCard''" "sc = ?sc"
        | "name = ''test''" "sc = Lst (test lang (length pairs * 2) players)"
        | "name = ''clear1''" "sc = Lst (clear1 lang (length pairs * 2))"
        | "name = ''clear2''" "sc = Lst (clear2 lang (length pairs * 2))"
        by (simp only: set_simps insert_iff empty_iff prod.inject) argo
      then show thesis
      proof cases
        case 1
        with assms(3) obtain c where c: "1 \<le> c" "c \<le> length pairs * 2"
          "l = [Cond ''card1'' Eq (Num c), Jump ''idle'', Play (the (sound pairs alt (int c)))]"
          by auto
        from 1(1) c(1,2) snd[OF c(1,2)] c(3) show ?thesis by (rule firstCard)
      next
        case 2
        with assms(3) obtain c where c: "1 \<le> c" "c \<le> length pairs * 2"
          "l = [Cond ''card2'' Eq (Num c), Cmd ''sum'' Set (Reg ''card1''),
              Cmd ''sum'' Add (Reg ''card2''), Cmd ''card1'' Set (Num 0),
              Cmd ''card2'' Set (Num 0), Jump ''test'', Play (the (sound pairs alt (int c)))]"
          by auto
        from 2(1) c(1,2) snd[OF c(1,2)] c(3) show ?thesis by (rule secondCard)
      next
        case 3
        then show ?thesis using assms(3) by (intro test) simp_all
      next
        case 4
        then show ?thesis using assms(3) by (intro clear1) simp_all
      next
        case 5
        then show ?thesis using assms(3) by (intro clear2) simp_all
      qed
    qed
  qed
qed

section \<open>Commands per line\<close>

lemma scripts_generated:
  "scripts players pairs alt lang (Some w) = Inr (generated players pairs alt lang w)"
  using scripts_total [of players pairs alt lang w] by (auto simp: generated_def)

lemma generated_members:
  shows "(''idle'', Str idle) \<in> set (generated players pairs alt lang w)"
    and "1 \<le> p \<Longrightarrow> p \<le> players \<Longrightarrow>
         (''p'' @ str_nat p, Lst (player_lines lang (length pairs) p))
           \<in> set (generated players pairs alt lang w)"
    and "(''q'', Lst (question lang players)) \<in> set (generated players pairs alt lang w)"
    and "(''shuffle'', Str (shuffle (length pairs * 2))) \<in> set (generated players pairs alt lang w)"
    and "pos1 < length pairs * 2 - 1 \<Longrightarrow>
         (''shuffle'' @ str_nat pos1, Lst (shuffle_lines lang (length pairs * 2) pos1))
           \<in> set (generated players pairs alt lang w)"
    and "c < length pairs * 2 \<Longrightarrow>
         (''c'' @ str_nat c, Lst (card_lines lang c)) \<in> set (generated players pairs alt lang w)"
    and "(''test'', Lst (test lang (length pairs * 2) players))
           \<in> set (generated players pairs alt lang w)"
    and "(''clear1'', Lst (clear1 lang (length pairs * 2)))
           \<in> set (generated players pairs alt lang w)"
    and "(''clear2'', Lst (clear2 lang (length pairs * 2)))
           \<in> set (generated players pairs alt lang w)"
proof -
  obtain B where B: "base_scripts players pairs alt lang = Inr B"
    using base_scripts_eq by blast
  have g: "set B \<subseteq> set (generated players pairs alt lang w)"
    using scripts_eq [OF B, of w] by (simp add: generated_def)
  note Beq = B [unfolded base_scripts_eq sum.inject, symmetric]
  have "(''idle'', Str idle) \<in> set B" unfolding Beq by simp
  then show "(''idle'', Str idle) \<in> set (generated players pairs alt lang w)" using g by blast
  have "(''q'', Lst (question lang players)) \<in> set B" unfolding Beq by simp
  then show "(''q'', Lst (question lang players)) \<in> set (generated players pairs alt lang w)"
    using g by blast
  have "(''shuffle'', Str (shuffle (length pairs * 2))) \<in> set B" unfolding Beq by simp
  then show "(''shuffle'', Str (shuffle (length pairs * 2)))
      \<in> set (generated players pairs alt lang w)"
    using g by blast
  have "(''test'', Lst (test lang (length pairs * 2) players)) \<in> set B" unfolding Beq by simp
  then show "(''test'', Lst (test lang (length pairs * 2) players))
           \<in> set (generated players pairs alt lang w)" using g by blast
  have "(''clear1'', Lst (clear1 lang (length pairs * 2))) \<in> set B" unfolding Beq by simp
  then show "(''clear1'', Lst (clear1 lang (length pairs * 2)))
           \<in> set (generated players pairs alt lang w)" using g by blast
  have "(''clear2'', Lst (clear2 lang (length pairs * 2))) \<in> set B" unfolding Beq by simp
  then show "(''clear2'', Lst (clear2 lang (length pairs * 2)))
           \<in> set (generated players pairs alt lang w)" using g by blast
  show "(''p'' @ str_nat p, Lst (player_lines lang (length pairs) p))
           \<in> set (generated players pairs alt lang w)" if "1 \<le> p" "p \<le> players"
  proof -
    from that have "(''p'' @ str_nat p, Lst (player_lines lang (length pairs) p))
        \<in> set (map (\<lambda>p. (''p'' @ str_nat p, Lst (player_lines lang (length pairs) p)))
              [1..<players + 1])"
      by (auto simp del: upt_Suc)
    then have "(''p'' @ str_nat p, Lst (player_lines lang (length pairs) p)) \<in> set B"
      unfolding Beq by (simp only: set_append Un_iff simp_thms)
    then show ?thesis using g by blast
  qed
  show "(''shuffle'' @ str_nat pos1, Lst (shuffle_lines lang (length pairs * 2) pos1))
           \<in> set (generated players pairs alt lang w)" if "pos1 < length pairs * 2 - 1"
  proof -
    from that have "(''shuffle'' @ str_nat pos1, Lst (shuffle_lines lang (length pairs * 2) pos1))
         \<in> set (shuffle_family lang (length pairs * 2))"
      by (simp add: shuffle_family_def)
    then have "(''shuffle'' @ str_nat pos1, Lst (shuffle_lines lang (length pairs * 2) pos1)) \<in> set B"
      unfolding Beq by simp
    then show ?thesis using g by blast
  qed
  show "(''c'' @ str_nat c, Lst (card_lines lang c)) \<in> set (generated players pairs alt lang w)"
    if "c < length pairs * 2"
  proof -
    from that have "(''c'' @ str_nat c, Lst (card_lines lang c))
         \<in> set (card_family lang (length pairs * 2))"
      by (simp add: card_family_def)
    then have "(''c'' @ str_nat c, Lst (card_lines lang c)) \<in> set B"
      unfolding Beq by simp
    then show ?thesis using g by blast
  qed
qed

lemma command_count_append: "command_count (xs @ ys) = command_count xs + command_count ys"
  by (simp add: command_count_def)

lemma command_count_le_length: "command_count xs \<le> length xs"
  by (simp add: command_count_def)

text \<open>
  Claim C1, as amended.  In every line of every generated script the tokens that are not
  conditions (commands, jump and plays) number at most 8.  Conditions are not part of
  the bound: with them a line can have 9 tokens and more.
\<close>

theorem commands_per_line:
  assumes "scripts players pairs alt lang (Some w) = Inr prog"
    and "(name, sc) \<in> set prog" and "l \<in> set (script_lines sc)"
  shows "command_count l \<le> 8"
  using assms
proof (cases rule: program_lines)
  case idle
  then show ?thesis by (simp add: idle_def command_count_def)
next
  case (player p)
  then show ?thesis by (auto simp: player_lines_def command_count_def)
next
  case question
  then show ?thesis by (auto simp: question_def winner_line_def command_count_def)
next
  case repeat0
  then show ?thesis by (simp add: command_count_def)
next
  case (repeat c s)
  then show ?thesis by (simp add: command_count_def)
next
  case shuffle
  then show ?thesis by (simp add: shuffle_def command_count_def)
next
  case (shuffle_state pos1)
  then show ?thesis
    by (auto simp: shuffle_lines_def guard_line_def swap_line_def command_count_def
             split: if_splits)
next
  case (card c)
  then show ?thesis by (auto simp: card_lines_def command_count_def)
next
  case (firstCard c s)
  then show ?thesis by (simp add: command_count_def)
next
  case (secondCard c s)
  then show ?thesis by (simp add: command_count_def)
next
  case test
  then show ?thesis by (auto simp: test_def command_count_def)
next
  case clear1
  then show ?thesis by (auto simp: clear1_def command_count_def)
next
  case clear2
  then show ?thesis by (auto simp: clear2_def command_count_def)
next
  case (restart cs k j p)
  have "command_count l = command_count cs + 2"
    using restart(4) by (simp add: command_count_append) (simp add: command_count_def)
  then show ?thesis using restart(2) command_count_le_length [of cs] by simp
qed

lemma str_nat_0: "str_nat 0 = ''0''"
  by (simp add: str_nat.simps digit_char_def)

text \<open>
  Claim C1 as stated fails: for one pair and one player the fourth line of script \<open>c0\<close>
  has two conditions, five commands, a jump and a play, 9 tokens together.
\<close>

theorem card_line_nine_tokens:
  "scripts 1 [''x''] False ''en'' (Some ''welcome'') = Inr (generated 1 [''x''] False ''en'' ''welcome'')
   \<and> (''c0'', Lst (card_lines ''en'' 0)) \<in> set (generated 1 [''x''] False ''en'' ''welcome'')
   \<and> card_lines ''en'' 0 ! 3 =
       [Cond ''busy'' Eq (Num 0), Cond ''card1'' Eq (Num 0),
        Cmd ''card1'' Set (Reg ''c0''), Cmd ''pos1'' Set (Num 0),
        Cmd ''lastCard'' Set (Reg ''c0''), Cmd ''lastPos'' Set (Num 0),
        Cmd ''busy'' Set (Num 1), Jump ''firstCard'', Play ''nop'']
   \<and> length (card_lines ''en'' 0 ! 3) = 9"
proof -
  have "(0::nat) < length [''x''] * 2" by simp
  then have "(''c'' @ str_nat 0, Lst (card_lines ''en'' 0))
      \<in> set (generated 1 [''x''] False ''en'' ''welcome'')"
    by (rule generated_members(6))
  then have m: "(''c0'', Lst (card_lines ''en'' 0)) \<in> set (generated 1 [''x''] False ''en'' ''welcome'')"
    by (simp add: str_nat_0)
  have l: "card_lines ''en'' 0 ! 3 =
       [Cond ''busy'' Eq (Num 0), Cond ''card1'' Eq (Num 0),
        Cmd ''card1'' Set (Reg ''c0''), Cmd ''pos1'' Set (Num 0),
        Cmd ''lastCard'' Set (Reg ''c0''), Cmd ''lastPos'' Set (Num 0),
        Cmd ''busy'' Set (Num 1), Jump ''firstCard'', Play ''nop'']"
    by (simp add: card_lines_def reg_c_def str_nat_0 numeral_3_eq_3)
  show ?thesis using scripts_generated m l by simp
qed

theorem commands_per_line_witness:
  "scripts 1 [''x''] False ''en'' (Some ''welcome'') = Inr (generated 1 [''x''] False ''en'' ''welcome'')
   \<and> (''shuffle'', Str (shuffle 2)) \<in> set (generated 1 [''x''] False ''en'' ''welcome'')
   \<and> shuffle 2 \<in> set (script_lines (Str (shuffle 2)))
   \<and> command_count (shuffle 2) \<le> 8"
proof -
  have g: "scripts 1 [''x''] False ''en'' (Some ''welcome'')
      = Inr (generated 1 [''x''] False ''en'' ''welcome'')"
    by (rule scripts_generated)
  have m: "(''shuffle'', Str (shuffle 2)) \<in> set (generated 1 [''x''] False ''en'' ''welcome'')"
    using generated_members(4) [of "[''x'']" 1 False "''en''" "''welcome''"] by simp
  have l: "shuffle 2 \<in> set (script_lines (Str (shuffle 2)))" by simp
  from commands_per_line [OF g m l] g m l show ?thesis by simp
qed

section \<open>Where the busy flag is cleared\<close>

lemma str_nat_eq_0 [simp]: "str_nat n = ''0'' \<longleftrightarrow> n = 0"
  using str_nat_inj [of n 0] by (auto simp: str_nat_0)

text \<open>
  Claim C8, as amended.  A token that sets the busy register to 0 occurs in two places
  only: the line of the idle script, and the first line of \<open>clear1\<close>, which clears busy
  when no pair remains and jumps to the query script.  No other line, and no
  restart script, has one.
\<close>

theorem busy_cleared_only_in_idle_and_clear1:
  assumes "scripts players pairs alt lang (Some w) = Inr prog"
    and "(name, sc) \<in> set prog" and "l \<in> set (script_lines sc)"
    and "t \<in> set l" and "clears_busy t"
  shows "(name = ''idle'' \<and> l = [Cmd ''busy'' Set (Num 0)])
       \<or> (name = ''clear1''
           \<and> l = [Cond ''remaining'' Eq (Num 0), Cmd ''busy'' Set (Num 0), Jump ''q'',
                   Play (lang @ ''_finished'')])"
  using assms(1,2,3)
proof (cases rule: program_lines)
  case idle
  then show ?thesis by (simp add: idle_def)
next
  case (player p)
  then show ?thesis using assms(4,5) by (auto simp: player_lines_def)
next
  case question
  then show ?thesis using assms(4,5) by (auto simp: question_def winner_line_def)
next
  case repeat0
  then show ?thesis using assms(4,5) by auto
next
  case (repeat c s)
  then show ?thesis using assms(4,5) by auto
next
  case shuffle
  then show ?thesis using assms(4,5) by (auto simp: shuffle_def)
next
  case (shuffle_state pos1)
  then show ?thesis using assms(4,5)
    by (auto simp: shuffle_lines_def guard_line_def swap_line_def reg_c_def split: if_splits)
next
  case (card c)
  then show ?thesis using assms(4,5) by (auto simp: card_lines_def)
next
  case (firstCard c s)
  then show ?thesis using assms(4,5) by auto
next
  case (secondCard c s)
  then show ?thesis using assms(4,5) by auto
next
  case test
  then show ?thesis using assms(4,5) by (auto simp: test_def reg_pairs_def)
next
  case clear1
  then show ?thesis using assms(4,5) by (auto simp: clear1_def reg_c_def)
next
  case clear2
  then show ?thesis using assms(4,5) by (auto simp: clear2_def reg_c_def)
next
  case (restart cs k j p)
  then show ?thesis using assms(4,5) by auto
qed

theorem busy_cleared_only_in_idle_and_clear1_witness:
  "scripts 1 [''x''] False ''en'' (Some ''welcome'') = Inr (generated 1 [''x''] False ''en'' ''welcome'')
   \<and> (''idle'', Str idle) \<in> set (generated 1 [''x''] False ''en'' ''welcome'')
   \<and> idle \<in> set (script_lines (Str idle))
   \<and> Cmd ''busy'' Set (Num 0) \<in> set idle
   \<and> clears_busy (Cmd ''busy'' Set (Num 0))
   \<and> idle = [Cmd ''busy'' Set (Num 0)]"
proof -
  have g: "scripts 1 [''x''] False ''en'' (Some ''welcome'')
      = Inr (generated 1 [''x''] False ''en'' ''welcome'')"
    by (rule scripts_generated)
  have m: "(''idle'', Str idle) \<in> set (generated 1 [''x''] False ''en'' ''welcome'')"
    by (rule generated_members(1))
  have l: "idle \<in> set (script_lines (Str idle))" by simp
  have t: "Cmd ''busy'' Set (Num 0) \<in> set idle" by (simp add: idle_def)
  have c: "clears_busy (Cmd ''busy'' Set (Num 0))" by (simp add: str_nat_0)
  from busy_cleared_only_in_idle_and_clear1 [OF g m l t c] g m l t c
  show ?thesis by simp
qed

text \<open>
  Claim C8 as stated fails: the first line of \<open>clear1\<close> sets busy to 0 and is not in the
  idle script.
\<close>

theorem clear1_clears_busy:
  "scripts 1 [''x''] False ''en'' (Some ''welcome'') = Inr (generated 1 [''x''] False ''en'' ''welcome'')
   \<and> (''clear1'', Lst (clear1 ''en'' 2)) \<in> set (generated 1 [''x''] False ''en'' ''welcome'')
   \<and> clear1 ''en'' 2 ! 0 = [Cond ''remaining'' Eq (Num 0), Cmd ''busy'' Set (Num 0), Jump ''q'',
                            Play ''en_finished'']
   \<and> clears_busy (clear1 ''en'' 2 ! 0 ! 1)
   \<and> ''clear1'' \<noteq> ''idle''"
proof -
  have m: "(''clear1'', Lst (clear1 ''en'' 2)) \<in> set (generated 1 [''x''] False ''en'' ''welcome'')"
    using generated_members(8) [of "''en''" "[''x'']" 1 False "''welcome''"] by simp
  have l: "clear1 ''en'' 2 ! 0 = [Cond ''remaining'' Eq (Num 0), Cmd ''busy'' Set (Num 0), Jump ''q'',
                            Play ''en_finished'']"
    by (simp add: clear1_def)
  show ?thesis using scripts_generated m l by (simp add: str_nat_0)
qed

section \<open>Divisors of the shuffle\<close>

lemma set_join: "set (join sep xs) \<subseteq> set sep \<union> \<Union> (set ` set xs)"
  by (induction sep xs rule: join.induct) auto

lemma str_nat_no_char: "ch \<notin> set ''0123456789'' \<Longrightarrow> ch \<notin> set (str_nat n)"
  using str_nat_digits [of n] by blast

lemma join_no_char:
  "ch \<notin> set sep \<Longrightarrow> (\<And>x. x \<in> set xs \<Longrightarrow> ch \<notin> set x) \<Longrightarrow> ch \<notin> set (join sep xs)"
  using set_join [of sep xs] by blast

text \<open>The init line has no \<open>%=\<close> or \<open>/=\<close> command either: it has neither character.\<close>

lemma init_line_no_division:
  "CHR ''%'' \<notin> set (init_line numPairs) \<and> CHR ''/'' \<notin> set (init_line numPairs)"
proof -
  have a: "ch \<notin> set (join '' '' (map (\<lambda>x. render (Cmd (reg_c x) Set (Num (x + 1)))) [0..<numPairs * 2]))"
    if "ch = CHR ''%'' \<or> ch = CHR ''/''" for ch
  proof (rule join_no_char)
    show "ch \<notin> set '' ''" using that by auto
  next
    fix x assume "x \<in> set (map (\<lambda>x. render (Cmd (reg_c x) Set (Num (x + 1)))) [0..<numPairs * 2])"
    then obtain k where "x = render (Cmd (reg_c k) Set (Num (k + 1)))" by auto
    then show "ch \<notin> set x" using that by (auto simp: reg_c_def str_nat_no_char)
  qed
  show ?thesis using a [of "CHR ''%''"] a [of "CHR ''/''"]
    by (simp add: init_line_def str_nat_no_char)
qed

text \<open>
  Claim C10.  With at least one pair, every \<open>%=\<close> and \<open>/=\<close> command of every line of
  every generated script has an integer literal of at least 2 as operand: \<open>numCards\<close> in
  the script \<open>shuffle\<close>, and \<open>numCards-pos1-1\<close> in a state \<open>shuffle{pos1}\<close> with
  \<open>pos1 \<le> numCards-3\<close>.  No other script has such a command.
\<close>

theorem divisors_at_least_2:
  assumes "pairs \<noteq> []"
    and "scripts players pairs alt lang (Some w) = Inr prog"
    and "(name, sc) \<in> set prog" and "l \<in> set (script_lines sc)"
    and "Cmd r a v \<in> set l" and "a = Mod \<or> a = Div"
  shows "\<exists>n. v = Num n \<and> 2 \<le> n
           \<and> ((name = ''shuffle'' \<and> n = length pairs * 2)
               \<or> (\<exists>pos1. pos1 + 3 \<le> length pairs * 2 \<and> name = ''shuffle'' @ str_nat pos1
                    \<and> n = length pairs * 2 - pos1 - 1))"
  using assms(2,3,4)
proof (cases rule: program_lines)
  case idle
  then show ?thesis using assms(5,6) by (auto simp: idle_def)
next
  case (player p)
  then show ?thesis using assms(5,6) by (auto simp: player_lines_def)
next
  case question
  then show ?thesis using assms(5,6) by (auto simp: question_def winner_line_def)
next
  case repeat0
  then show ?thesis using assms(5,6) by auto
next
  case (repeat c s)
  then show ?thesis using assms(5,6) by auto
next
  case shuffle
  have "2 \<le> length pairs * 2" using assms(1) by (cases pairs) simp_all
  then show ?thesis using shuffle assms(5,6) by (auto simp: shuffle_def)
next
  case (shuffle_state pos1)
  from shuffle_state(3) assms(5,6)
  have "pos1 \<noteq> length pairs * 2 - 2 \<and> v = Num (length pairs * 2 - pos1 - 1)"
    by (auto simp: shuffle_lines_def guard_line_def swap_line_def split: if_splits)
  then have "v = Num (length pairs * 2 - pos1 - 1)" "2 \<le> length pairs * 2 - pos1 - 1"
      "pos1 + 3 \<le> length pairs * 2"
    using shuffle_state(1) by auto
  then show ?thesis using shuffle_state(2) by blast
next
  case (card c)
  then show ?thesis using assms(5,6) by (auto simp: card_lines_def)
next
  case (firstCard c s)
  then show ?thesis using assms(5,6) by auto
next
  case (secondCard c s)
  then show ?thesis using assms(5,6) by auto
next
  case test
  then show ?thesis using assms(5,6) by (auto simp: test_def)
next
  case clear1
  then show ?thesis using assms(5,6) by (auto simp: clear1_def)
next
  case clear2
  then show ?thesis using assms(5,6) by (auto simp: clear2_def)
next
  case (restart cs k j p)
  then show ?thesis using assms(5,6) by auto
qed

theorem divisors_at_least_2_witness:
  "[''x'', ''y''] \<noteq> []
   \<and> scripts 1 [''x'', ''y''] False ''en'' (Some ''welcome'')
       = Inr (generated 1 [''x'', ''y''] False ''en'' ''welcome'')
   \<and> (''shuffle0'', Lst (shuffle_lines ''en'' 4 0)) \<in> set (generated 1 [''x'', ''y''] False ''en'' ''welcome'')
   \<and> swap_line ''en'' 4 0 0 \<in> set (script_lines (Lst (shuffle_lines ''en'' 4 0)))
   \<and> Cmd ''pos'' Mod (Num 3) \<in> set (swap_line ''en'' 4 0 0)
   \<and> (\<exists>n. Num 3 = Num n \<and> 2 \<le> n)"
proof -
  have g: "scripts 1 [''x'', ''y''] False ''en'' (Some ''welcome'')
       = Inr (generated 1 [''x'', ''y''] False ''en'' ''welcome'')"
    by (rule scripts_generated)
  have "(0::nat) < length [''x'', ''y''] * 2 - 1" by simp
  then have "(''shuffle'' @ str_nat 0, Lst (shuffle_lines ''en'' (length [''x'', ''y''] * 2) 0))
      \<in> set (generated 1 [''x'', ''y''] False ''en'' ''welcome'')"
    by (rule generated_members(5))
  then have m: "(''shuffle0'', Lst (shuffle_lines ''en'' 4 0))
      \<in> set (generated 1 [''x'', ''y''] False ''en'' ''welcome'')"
    by (simp add: str_nat_0)
  have l: "swap_line ''en'' 4 0 0 \<in> set (script_lines (Lst (shuffle_lines ''en'' 4 0)))"
    by (simp add: shuffle_lines_def upt_rec [of 0 4])
  have t: "Cmd ''pos'' Mod (Num 3) \<in> set (swap_line ''en'' 4 0 0)"
    by (simp add: swap_line_def)
  have n: "[''x'', ''y''] \<noteq> []" by simp
  have a: "Mod = Mod \<or> Mod = Div" by simp
  from divisors_at_least_2 [OF n g m l t a] have "\<exists>n. Num 3 = Num n \<and> 2 \<le> n" by blast
  with n g m l t show ?thesis by blast
qed

section \<open>The shuffle states\<close>

lemma shuffle_names_distinct: "distinct (map (\<lambda>pos1. ''shuffle'' @ str_nat pos1) [0..<k])"
  by (auto simp: distinct_map intro!: inj_onI dest: str_nat_inj)

lemma str_nat_1: "str_nat (Suc 0) = ''1''"
  by (simp add: str_nat.simps digit_char_def)

lemma str_nat_2: "str_nat 2 = ''2''"
  by (simp add: str_nat.simps digit_char_def)

lemma str_nat_3: "str_nat 3 = ''3''"
  by (simp add: str_nat.simps digit_char_def)

lemma last_shuffle_lines:
  assumes "2 \<le> n"
  shows "shuffle_lines lang n (n - 2) =
       [[Cond ''pos'' Eq (Num 0),
         Play (lang @ ''_start''), Jump ''idle'', Play (lang @ ''_player1'')],
        [Cond ''pos'' Eq (Num 1),
         Cmd ''t'' Set (Reg (reg_c (n - 2))),
         Cmd (reg_c (n - 2)) Set (Reg (reg_c (n - 1))),
         Cmd (reg_c (n - 1)) Set (Reg ''t''),
         Play (lang @ ''_start''), Jump ''idle'', Play (lang @ ''_player1'')]]"
proof -
  obtain m where n: "n = Suc (Suc m)" using assms by (metis add_2_eq_Suc le_Suc_ex)
  have "[m..<Suc (Suc m)] = [m, Suc m]" by (simp add: upt_rec)
  then show ?thesis unfolding n by (simp add: shuffle_lines_def swap_line_def)
qed

text \<open>
  Claim C6, as amended.  With at least one pair the shuffle family has exactly
  \<open>numCards-1\<close> states, named \<open>shuffle0\<close> to \<open>shuffle{numCards-2}\<close>, all in the
  generated table.  The state for position \<open>numCards-2\<close> has no regeneration guard and two
  lines, chosen by a comparison of \<open>$pos\<close>: for \<open>$pos==0\<close> no swap, for \<open>$pos==1\<close> the
  swap of the last two cards.  Both lines play the start narration, jump to \<open>idle\<close> and
  play the first player's prompt; neither jumps to another shuffle state.
\<close>

theorem shuffle_states:
  assumes "pairs \<noteq> []"
  shows "map fst (shuffle_family lang (length pairs * 2))
           = map (\<lambda>pos1. ''shuffle'' @ str_nat pos1) [0..<length pairs * 2 - 1]
       \<and> length (shuffle_family lang (length pairs * 2)) = length pairs * 2 - 1
       \<and> distinct (map fst (shuffle_family lang (length pairs * 2)))
       \<and> set (shuffle_family lang (length pairs * 2)) \<subseteq> set (generated players pairs alt lang w)
       \<and> (''shuffle'' @ str_nat (length pairs * 2 - 2),
           Lst [[Cond ''pos'' Eq (Num 0),
                 Play (lang @ ''_start''), Jump ''idle'', Play (lang @ ''_player1'')],
                [Cond ''pos'' Eq (Num 1),
                 Cmd ''t'' Set (Reg (reg_c (length pairs * 2 - 2))),
                 Cmd (reg_c (length pairs * 2 - 2)) Set (Reg (reg_c (length pairs * 2 - 1))),
                 Cmd (reg_c (length pairs * 2 - 1)) Set (Reg ''t''),
                 Play (lang @ ''_start''), Jump ''idle'', Play (lang @ ''_player1'')]])
          \<in> set (shuffle_family lang (length pairs * 2))"
proof -
  let ?n = "length pairs * 2"
  have n2: "2 \<le> ?n" using assms by (cases pairs) simp_all
  have names: "map fst (shuffle_family lang ?n) = map (\<lambda>pos1. ''shuffle'' @ str_nat pos1) [0..<?n - 1]"
    by (simp add: shuffle_family_def)
  have len: "length (shuffle_family lang ?n) = ?n - 1"
    by (simp add: shuffle_family_def)
  have dist: "distinct (map fst (shuffle_family lang ?n))"
    unfolding names by (rule shuffle_names_distinct)
  have sub: "set (shuffle_family lang ?n) \<subseteq> set (generated players pairs alt lang w)"
  proof
    fix x assume "x \<in> set (shuffle_family lang ?n)"
    then obtain pos1 where "pos1 < ?n - 1"
        "x = (''shuffle'' @ str_nat pos1, Lst (shuffle_lines lang ?n pos1))"
      by (auto simp: shuffle_family_def)
    then show "x \<in> set (generated players pairs alt lang w)"
      using generated_members(5) [of pos1 pairs lang players alt w] by simp
  qed
  have "?n - 2 < ?n - 1" using n2 by simp
  then have "(''shuffle'' @ str_nat (?n - 2), Lst (shuffle_lines lang ?n (?n - 2)))
      \<in> set (shuffle_family lang ?n)"
    by (simp add: shuffle_family_def)
  then have last: "(''shuffle'' @ str_nat (?n - 2),
           Lst [[Cond ''pos'' Eq (Num 0),
                 Play (lang @ ''_start''), Jump ''idle'', Play (lang @ ''_player1'')],
                [Cond ''pos'' Eq (Num 1),
                 Cmd ''t'' Set (Reg (reg_c (?n - 2))),
                 Cmd (reg_c (?n - 2)) Set (Reg (reg_c (?n - 1))),
                 Cmd (reg_c (?n - 1)) Set (Reg ''t''),
                 Play (lang @ ''_start''), Jump ''idle'', Play (lang @ ''_player1'')]])
          \<in> set (shuffle_family lang ?n)"
    by (simp only: last_shuffle_lines [OF n2])
  from names len dist sub last show ?thesis by blast
qed

theorem shuffle_states_witness:
  "[''x'', ''y''] \<noteq> []
   \<and> map fst (shuffle_family ''en'' 4) = [''shuffle0'', ''shuffle1'', ''shuffle2'']
   \<and> length (shuffle_family ''en'' 4) = 3
   \<and> (''shuffle2'',
       Lst [[Cond ''pos'' Eq (Num 0), Play ''en_start'', Jump ''idle'', Play ''en_player1''],
            [Cond ''pos'' Eq (Num 1), Cmd ''t'' Set (Reg ''c2''), Cmd ''c2'' Set (Reg ''c3''),
             Cmd ''c3'' Set (Reg ''t''), Play ''en_start'', Jump ''idle'', Play ''en_player1'']])
      \<in> set (shuffle_family ''en'' 4)"
proof -
  have n: "[''x'', ''y''] \<noteq> []" by simp
  have u: "[0..<3] = [0, 1, 2]" by (simp add: upt_rec)
  note T = shuffle_states [OF n, of "''en''" 1 False "''welcome''"]
  from T [THEN conjunct1]
  have a: "map fst (shuffle_family ''en'' 4) = [''shuffle0'', ''shuffle1'', ''shuffle2'']"
    by (simp add: u str_nat_0 str_nat_1 str_nat_2)
  from T [THEN conjunct2, THEN conjunct1]
  have b: "length (shuffle_family ''en'' 4) = 3" by simp
  from T [THEN conjunct2, THEN conjunct2, THEN conjunct2, THEN conjunct2]
  have c: "(''shuffle2'',
       Lst [[Cond ''pos'' Eq (Num 0), Play ''en_start'', Jump ''idle'', Play ''en_player1''],
            [Cond ''pos'' Eq (Num 1), Cmd ''t'' Set (Reg ''c2''), Cmd ''c2'' Set (Reg ''c3''),
             Cmd ''c3'' Set (Reg ''t''), Play ''en_start'', Jump ''idle'', Play ''en_player1'']])
      \<in> set (shuffle_family ''en'' 4)"
    by (simp add: reg_c_def str_nat_2 str_nat_3)
  from n a b c show ?thesis by blast
qed

text \<open>
  Claim C6 as stated fails: with one pair the state for position \<open>numCards-2 = 0\<close>
  compares \<open>$pos\<close> in both of its lines, and with \<open>$pos = 0\<close> the line that fires is the
  first one, which swaps nothing.
\<close>

theorem last_shuffle_state_compares:
  "(''shuffle0'', Lst (shuffle_lines ''en'' 2 0)) \<in> set (generated 1 [''x''] False ''en'' ''welcome'')
   \<and> shuffle_lines ''en'' 2 0 =
       [[Cond ''pos'' Eq (Num 0), Play ''en_start'', Jump ''idle'', Play ''en_player1''],
        [Cond ''pos'' Eq (Num 1), Cmd ''t'' Set (Reg ''c0''), Cmd ''c0'' Set (Reg ''c1''),
         Cmd ''c1'' Set (Reg ''t''), Play ''en_start'', Jump ''idle'', Play ''en_player1'']]
   \<and> first_fire (\<lambda>r. 0) (shuffle_lines ''en'' 2 0) = Some 0
   \<and> first_fire ((\<lambda>r. 0)(''pos'' := 1)) (shuffle_lines ''en'' 2 0) = Some 1"
proof -
  have "(0::nat) < length [''x''] * 2 - 1" by simp
  then have "(''shuffle'' @ str_nat 0, Lst (shuffle_lines ''en'' (length [''x''] * 2) 0))
      \<in> set (generated 1 [''x''] False ''en'' ''welcome'')"
    by (rule generated_members(5))
  then have m: "(''shuffle0'', Lst (shuffle_lines ''en'' 2 0))
      \<in> set (generated 1 [''x''] False ''en'' ''welcome'')"
    by (simp add: str_nat_0)
  have l: "shuffle_lines ''en'' 2 0 =
       [[Cond ''pos'' Eq (Num 0), Play ''en_start'', Jump ''idle'', Play ''en_player1''],
        [Cond ''pos'' Eq (Num 1), Cmd ''t'' Set (Reg ''c0''), Cmd ''c0'' Set (Reg ''c1''),
         Cmd ''c1'' Set (Reg ''t''), Play ''en_start'', Jump ''idle'', Play ''en_player1'']]"
    using last_shuffle_lines [of 2 "''en''"] by (simp add: reg_c_def str_nat_0 str_nat_1)
  have f: "first_fire (\<lambda>r. 0) (shuffle_lines ''en'' 2 0) = Some 0"
       "first_fire ((\<lambda>r. 0)(''pos'' := 1)) (shuffle_lines ''en'' 2 0) = Some 1"
    unfolding l by (simp_all add: line_fires_def)
  from m l f show ?thesis by blast
qed

text \<open>
  Claim C7, as amended.  For a position \<open>pos1 < numCards-2\<close> the first line of
  \<open>shuffle{pos1}\<close> is the regeneration guard: it fires exactly when
  \<open>$rnd < 10*(numCards-pos1-1)\<close>, steps the generator (times 25173, plus 13849), copies
  the result to \<open>$rnd\<close> and jumps back to \<open>shuffle{pos1}\<close>.  No other line of the state
  tests \<open>$rnd\<close>, and the state for position \<open>numCards-2\<close> has no guard.
\<close>

theorem regeneration_guard:
  assumes "pos1 + 2 < length pairs * 2"
  shows "(''shuffle'' @ str_nat pos1, Lst (shuffle_lines lang (length pairs * 2) pos1))
           \<in> set (generated players pairs alt lang w)
       \<and> shuffle_lines lang (length pairs * 2) pos1 ! 0 =
           [Cond ''rnd'' Lt (Num (10 * (length pairs * 2 - pos1 - 1))),
            Cmd ''random'' Mul (Num 25173), Cmd ''random'' Add (Num 13849),
            Cmd ''rnd'' Set (Reg ''random''),
            Jump (''shuffle'' @ str_nat pos1), Play ''nop'']
       \<and> (line_fires st (shuffle_lines lang (length pairs * 2) pos1 ! 0)
            \<longleftrightarrow> st ''rnd'' < 10 * (length pairs * 2 - pos1 - 1))
       \<and> (\<forall>l\<in>set (tl (shuffle_lines lang (length pairs * 2) pos1)).
             \<forall>c v. Cond ''rnd'' c v \<notin> set l)
       \<and> (\<forall>l\<in>set (shuffle_lines lang (length pairs * 2) (length pairs * 2 - 2)).
             \<forall>c v. Cond ''rnd'' c v \<notin> set l)"
proof -
  let ?n = "length pairs * 2"
  have lt: "pos1 < ?n - 2" using assms by simp
  have "pos1 < ?n - 1" using assms by simp
  then have m: "(''shuffle'' @ str_nat pos1, Lst (shuffle_lines lang ?n pos1))
           \<in> set (generated players pairs alt lang w)"
    by (rule generated_members(5))
  have g: "shuffle_lines lang ?n pos1 ! 0 =
           [Cond ''rnd'' Lt (Num (10 * (?n - pos1 - 1))),
            Cmd ''random'' Mul (Num 25173), Cmd ''random'' Add (Num 13849),
            Cmd ''rnd'' Set (Reg ''random''),
            Jump (''shuffle'' @ str_nat pos1), Play ''nop'']"
    using lt by (simp add: shuffle_lines_def guard_line_def)
  have f: "line_fires st (shuffle_lines lang ?n pos1 ! 0) \<longleftrightarrow> st ''rnd'' < 10 * (?n - pos1 - 1)"
    unfolding g by (simp add: line_fires_def)
  have t: "\<forall>l\<in>set (tl (shuffle_lines lang ?n pos1)). \<forall>c v. Cond ''rnd'' c v \<notin> set l"
    using lt by (auto simp: shuffle_lines_def swap_line_def)
  have "2 \<le> ?n" using assms by simp
  then have e: "\<forall>l\<in>set (shuffle_lines lang ?n (?n - 2)). \<forall>c v. Cond ''rnd'' c v \<notin> set l"
    by (simp add: last_shuffle_lines)
  from m g f t e show ?thesis by blast
qed

theorem regeneration_guard_witness:
  "(0::nat) + 2 < length [''x'', ''y''] * 2
   \<and> (''shuffle0'', Lst (shuffle_lines ''en'' 4 0))
           \<in> set (generated 1 [''x'', ''y''] False ''en'' ''welcome'')
   \<and> shuffle_lines ''en'' 4 0 ! 0 =
           [Cond ''rnd'' Lt (Num 30),
            Cmd ''random'' Mul (Num 25173), Cmd ''random'' Add (Num 13849),
            Cmd ''rnd'' Set (Reg ''random''),
            Jump ''shuffle0'', Play ''nop'']
   \<and> line_fires (\<lambda>r. 29) (shuffle_lines ''en'' 4 0 ! 0)
   \<and> \<not> line_fires (\<lambda>r. 30) (shuffle_lines ''en'' 4 0 ! 0)"
proof -
  have h: "(0::nat) + 2 < length [''x'', ''y''] * 2" by simp
  note T = regeneration_guard [OF h, of "''en''" 1 False "''welcome''"]
  from T [of "\<lambda>r. 0", THEN conjunct1]
  have m: "(''shuffle0'', Lst (shuffle_lines ''en'' 4 0))
           \<in> set (generated 1 [''x'', ''y''] False ''en'' ''welcome'')"
    by (simp add: str_nat_0)
  from T [of "\<lambda>r. 0", THEN conjunct2, THEN conjunct1]
  have g: "shuffle_lines ''en'' 4 0 ! 0 =
           [Cond ''rnd'' Lt (Num 30),
            Cmd ''random'' Mul (Num 25173), Cmd ''random'' Add (Num 13849),
            Cmd ''rnd'' Set (Reg ''random''),
            Jump ''shuffle0'', Play ''nop'']"
    by (simp add: str_nat_0)
  from T [of "\<lambda>r. 29", THEN conjunct2, THEN conjunct2, THEN conjunct1]
  have a: "line_fires (\<lambda>r. 29) (shuffle_lines ''en'' 4 0 ! 0)" by simp
  from T [of "\<lambda>r. 30", THEN conjunct2, THEN conjunct2, THEN conjunct1]
  have b: "\<not> line_fires (\<lambda>r. 30) (shuffle_lines ''en'' 4 0 ! 0)" by simp
  from h m g a b show ?thesis by blast
qed

text \<open>
  Claim C7 as stated fails: with two pairs the guard of \<open>shuffle0\<close> tests \<open>$rnd < 30\<close>,
  not \<open>$rnd < 40\<close>, so it does not fire for \<open>$rnd = 35\<close>; and \<open>shuffle2\<close> has no
  guard line.
\<close>

theorem guard_threshold_is_smaller:
  "(''shuffle0'', Lst (shuffle_lines ''en'' 4 0))
           \<in> set (generated 1 [''x'', ''y''] False ''en'' ''welcome'')
   \<and> shuffle_lines ''en'' 4 0 ! 0 =
           [Cond ''rnd'' Lt (Num 30),
            Cmd ''random'' Mul (Num 25173), Cmd ''random'' Add (Num 13849),
            Cmd ''rnd'' Set (Reg ''random''),
            Jump ''shuffle0'', Play ''nop'']
   \<and> (35::nat) < 10 * (4 - 0)
   \<and> \<not> line_fires (\<lambda>r. 35) (shuffle_lines ''en'' 4 0 ! 0)
   \<and> shuffle_lines ''en'' 4 2 =
       [[Cond ''pos'' Eq (Num 0), Play ''en_start'', Jump ''idle'', Play ''en_player1''],
        [Cond ''pos'' Eq (Num 1), Cmd ''t'' Set (Reg ''c2''), Cmd ''c2'' Set (Reg ''c3''),
         Cmd ''c3'' Set (Reg ''t''), Play ''en_start'', Jump ''idle'', Play ''en_player1'']]"
proof -
  have "(0::nat) < length [''x'', ''y''] * 2 - 1" by simp
  then have "(''shuffle'' @ str_nat 0, Lst (shuffle_lines ''en'' (length [''x'', ''y''] * 2) 0))
      \<in> set (generated 1 [''x'', ''y''] False ''en'' ''welcome'')"
    by (rule generated_members(5))
  then have m: "(''shuffle0'', Lst (shuffle_lines ''en'' 4 0))
      \<in> set (generated 1 [''x'', ''y''] False ''en'' ''welcome'')"
    by (simp add: str_nat_0)
  have g: "shuffle_lines ''en'' 4 0 ! 0 =
           [Cond ''rnd'' Lt (Num 30),
            Cmd ''random'' Mul (Num 25173), Cmd ''random'' Add (Num 13849),
            Cmd ''rnd'' Set (Reg ''random''),
            Jump ''shuffle0'', Play ''nop'']"
    by (simp add: shuffle_lines_def guard_line_def str_nat_0)
  have f: "\<not> line_fires (\<lambda>r. 35) (shuffle_lines ''en'' 4 0 ! 0)"
    unfolding g by (simp add: line_fires_def)
  have l: "shuffle_lines ''en'' 4 2 =
       [[Cond ''pos'' Eq (Num 0), Play ''en_start'', Jump ''idle'', Play ''en_player1''],
        [Cond ''pos'' Eq (Num 1), Cmd ''t'' Set (Reg ''c2''), Cmd ''c2'' Set (Reg ''c3''),
         Cmd ''c3'' Set (Reg ''t''), Play ''en_start'', Jump ''idle'', Play ''en_player1'']]"
    using last_shuffle_lines [of 4 "''en''"] by (simp add: reg_c_def str_nat_2 str_nat_3)
  from m g f l show ?thesis by simp
qed

section \<open>The winner computation of the query script\<close>

lemma first_fire_Some_iff:
  "first_fire st ls = Some i \<longleftrightarrow>
     i < length ls \<and> line_fires st (ls ! i) \<and> (\<forall>j<i. \<not> line_fires st (ls ! j))"
proof (induction ls arbitrary: i)
  case Nil
  then show ?case by simp
next
  case (Cons l ls)
  show ?case
  proof (cases "line_fires st l")
    case True
    then show ?thesis by (cases i) auto
  next
    case False
    show ?thesis
    proof (cases i)
      case 0
      then show ?thesis using False by simp
    next
      case (Suc k)
      have "(\<forall>j<Suc k. \<not> line_fires st ((l # ls) ! j)) \<longleftrightarrow> (\<forall>j<k. \<not> line_fires st (ls ! j))"
        using False by (auto simp: less_Suc_eq_0_disj)
      then show ?thesis using False Suc Cons.IH [of k] by auto
    qed
  qed
qed














section \<open>The match test and the two halves of a pair\<close>

lemma test_nth_match:
  "i < players \<Longrightarrow> test lang numCards players ! i =
     [Cond ''sum'' Eq (Num (numCards + 1)), Cond ''player'' Eq (Num (Suc i)),
      Cmd (reg_pairs (Suc i)) Add (Num 1), Cmd ''remaining'' Sub (Num 1),
      Jump ''clear1'', Play (lang @ ''_match'')]"
  by (simp add: test_def nth_append del: upt_Suc)

lemma test_length: "players \<le> length (test lang numCards players)"
  by (simp add: test_def del: upt_Suc)

lemma secondCard_nth:
  assumes "1 \<le> c" and "c \<le> length pairs * 2"
  shows "\<exists>ls. secondCard pairs alt = Some (Lst ls) \<and> length ls = length pairs * 2
      \<and> ls ! (c - 1) =
          [Cond ''card2'' Eq (Num c), Cmd ''sum'' Set (Reg ''card1''),
           Cmd ''sum'' Add (Reg ''card2''), Cmd ''card1'' Set (Num 0),
           Cmd ''card2'' Set (Num 0), Jump ''test'',
           Play (pairs ! nat (pair_index (int (length pairs)) (int c))
                 @ (if alt then (if int c \<le> int (length pairs) then ''_a'' else ''_b'') else []))]"
proof -
  have s: "the (sound pairs alt (int c)) =
      pairs ! nat (pair_index (int (length pairs)) (int c))
        @ (if alt then (if int c \<le> int (length pairs) then ''_a'' else ''_b'') else [])"
    using assms sound_in_range [of "int c" pairs alt] by simp
  have i: "c - 1 < length pairs * 2" "Suc (c - 1) = c" using assms by simp_all
  show ?thesis
    unfolding secondCard_def sound_lines_eq
    using i by (simp add: s del: upt_Suc)
qed

text \<open>
  Claim C3.  For card ids \<open>c1\<close>, \<open>c2\<close> in \<open>1..numCards\<close>: \<open>sound\<close> reads for \<open>c1\<close> and for
  \<open>numCards+1-c1\<close> the same entry of \<open>pairs\<close> (entry \<open>c1-1\<close> when \<open>c1 \<le> numPairs\<close>), the
  two names differing at most in the suffix \<open>_a\<close>/\<open>_b\<close>.  The line of \<open>secondCard\<close> for
  \<open>c2\<close> sets \<open>$sum\<close> to \<open>$card1\<close> and adds \<open>$card2\<close>; the script \<open>test\<close> of the generated
  table has for player \<open>p\<close> the match line that compares \<open>$sum\<close> with \<open>numCards+1\<close>; and
  with \<open>$sum = c1+c2\<close> and player \<open>p\<close> on turn that line is the one that fires exactly
  when \<open>c1+c2 = numCards+1\<close>, which holds exactly when \<open>c1\<close> and \<open>c2\<close> are different
  cards reading the same entry of \<open>pairs\<close>.
\<close>

theorem match_test_pairs:
  assumes "1 \<le> c1" and "c1 \<le> length pairs * 2"
    and "1 \<le> c2" and "c2 \<le> length pairs * 2"
    and "1 \<le> p" and "p \<le> players"
    and "st ''player'' = p" and "st ''sum'' = c1 + c2"
  shows "pair_index (int (length pairs)) (int (length pairs * 2 + 1 - c1))
           = pair_index (int (length pairs)) (int c1)
       \<and> (c1 \<le> length pairs \<longrightarrow> pair_index (int (length pairs)) (int c1) = int c1 - 1)
       \<and> sound pairs alt (int c1) =
           Some (pairs ! nat (pair_index (int (length pairs)) (int c1))
                 @ (if alt then (if c1 \<le> length pairs then ''_a'' else ''_b'') else []))
       \<and> sound pairs alt (int (length pairs * 2 + 1 - c1)) =
           Some (pairs ! nat (pair_index (int (length pairs)) (int c1))
                 @ (if alt then (if c1 \<le> length pairs then ''_b'' else ''_a'') else []))
       \<and> (\<exists>ls. secondCard pairs alt = Some (Lst ls)
             \<and> ls ! (c2 - 1) =
                 [Cond ''card2'' Eq (Num c2), Cmd ''sum'' Set (Reg ''card1''),
                  Cmd ''sum'' Add (Reg ''card2''), Cmd ''card1'' Set (Num 0),
                  Cmd ''card2'' Set (Num 0), Jump ''test'',
                  Play (pairs ! nat (pair_index (int (length pairs)) (int c2))
                        @ (if alt then (if c2 \<le> length pairs then ''_a'' else ''_b'') else []))])
       \<and> (''test'', Lst (test lang (length pairs * 2) players))
            \<in> set (generated players pairs alt lang w)
       \<and> test lang (length pairs * 2) players ! (p - 1) =
            [Cond ''sum'' Eq (Num (length pairs * 2 + 1)), Cond ''player'' Eq (Num p),
             Cmd (reg_pairs p) Add (Num 1), Cmd ''remaining'' Sub (Num 1),
             Jump ''clear1'', Play (lang @ ''_match'')]
       \<and> (first_fire st (test lang (length pairs * 2) players) = Some (p - 1)
            \<longleftrightarrow> c1 + c2 = length pairs * 2 + 1)
       \<and> (c1 + c2 = length pairs * 2 + 1
            \<longleftrightarrow> c1 \<noteq> c2
                \<and> pair_index (int (length pairs)) (int c1) = pair_index (int (length pairs)) (int c2))"
proof -
  let ?n = "int (length pairs)"
  let ?T = "test lang (length pairs * 2) players"
  have r1: "1 \<le> int c1" "int c1 \<le> 2 * ?n" using assms(1,2) by simp_all
  have e: "int (length pairs * 2 + 1 - c1) = 2 * ?n + 1 - int c1" using assms(2) by simp
  note F = sound_pair_facts [OF r1, of alt]
  have a: "pair_index ?n (int (length pairs * 2 + 1 - c1)) = pair_index ?n (int c1)"
    using F [THEN conjunct1] by (simp only: e)
  have b: "c1 \<le> length pairs \<longrightarrow> pair_index ?n (int c1) = int c1 - 1"
    by (simp add: pair_index_def)
  have c: "sound pairs alt (int c1) =
           Some (pairs ! nat (pair_index ?n (int c1))
                 @ (if alt then (if c1 \<le> length pairs then ''_a'' else ''_b'') else []))"
    using sound_in_range [OF r1, of alt] by simp
  have d0: "sound pairs alt (2 * ?n + 1 - int c1) =
           Some (pairs ! nat (pair_index ?n (int c1))
                 @ (if alt then (if int c1 \<le> ?n then ''_b'' else ''_a'') else []))"
    using F by blast
  have d: "sound pairs alt (int (length pairs * 2 + 1 - c1)) =
           Some (pairs ! nat (pair_index ?n (int c1))
                 @ (if alt then (if c1 \<le> length pairs then ''_b'' else ''_a'') else []))"
    unfolding e using d0 by (simp only: of_nat_le_iff)
  have s: "\<exists>ls. secondCard pairs alt = Some (Lst ls)
             \<and> ls ! (c2 - 1) =
                 [Cond ''card2'' Eq (Num c2), Cmd ''sum'' Set (Reg ''card1''),
                  Cmd ''sum'' Add (Reg ''card2''), Cmd ''card1'' Set (Num 0),
                  Cmd ''card2'' Set (Num 0), Jump ''test'',
                  Play (pairs ! nat (pair_index ?n (int c2))
                        @ (if alt then (if c2 \<le> length pairs then ''_a'' else ''_b'') else []))]"
    using secondCard_nth [OF assms(3,4), of alt] by auto
  have m: "(''test'', Lst ?T) \<in> set (generated players pairs alt lang w)"
    by (rule generated_members(7))
  have pi: "p - 1 < players" "Suc (p - 1) = p" using assms(5,6) by simp_all
  have l: "?T ! (p - 1) =
            [Cond ''sum'' Eq (Num (length pairs * 2 + 1)), Cond ''player'' Eq (Num p),
             Cmd (reg_pairs p) Add (Num 1), Cmd ''remaining'' Sub (Num 1),
             Jump ''clear1'', Play (lang @ ''_match'')]"
    using test_nth_match [OF pi(1), of lang "length pairs * 2"] by (simp only: pi(2))
  have before: "\<not> line_fires st (?T ! j)" if "j < p - 1" for j
  proof -
    from that pi have "j < players" by simp
    then have "?T ! j =
       [Cond ''sum'' Eq (Num (length pairs * 2 + 1)), Cond ''player'' Eq (Num (Suc j)),
        Cmd (reg_pairs (Suc j)) Add (Num 1), Cmd ''remaining'' Sub (Num 1),
        Jump ''clear1'', Play (lang @ ''_match'')]"
      by (rule test_nth_match)
    moreover have "p \<noteq> Suc j" using that by simp
    ultimately show ?thesis using assms(7) by (simp add: line_fires_def)
  qed
  have here: "line_fires st (?T ! (p - 1)) \<longleftrightarrow> c1 + c2 = length pairs * 2 + 1"
    unfolding l using assms(7,8) by (simp add: line_fires_def)
  have "p - 1 < length ?T" using pi(1) test_length [of players lang "length pairs * 2"] by simp
  then have f: "first_fire st ?T = Some (p - 1) \<longleftrightarrow> c1 + c2 = length pairs * 2 + 1"
    using before here by (simp add: first_fire_Some_iff)
  have g: "c1 + c2 = length pairs * 2 + 1
            \<longleftrightarrow> c1 \<noteq> c2 \<and> pair_index ?n (int c1) = pair_index ?n (int c2)"
    using assms(1-4) by (auto simp: pair_index_def)
  from a b c d s m l f g show ?thesis by blast
qed

theorem match_test_pairs_witness:
  "sound [''cat'', ''dog''] True 1 = Some ''cat_a''
   \<and> sound [''cat'', ''dog''] True 4 = Some ''cat_b''
   \<and> test ''en'' 4 2 ! 0 =
        [Cond ''sum'' Eq (Num 5), Cond ''player'' Eq (Num 1),
         Cmd ''pairs1'' Add (Num 1), Cmd ''remaining'' Sub (Num 1),
         Jump ''clear1'', Play ''en_match'']
   \<and> first_fire ((\<lambda>r. 0)(''player'' := 1, ''sum'' := 1 + 4)) (test ''en'' 4 2) = Some 0
   \<and> first_fire ((\<lambda>r. 0)(''player'' := 1, ''sum'' := 1 + 3)) (test ''en'' 4 2) \<noteq> Some 0"
proof -
  let ?ps = "[''cat'', ''dog'']"
  let ?s1 = "(\<lambda>r. 0::nat)(''player'' := 1, ''sum'' := 1 + 4)"
  let ?s2 = "(\<lambda>r. 0::nat)(''player'' := 1, ''sum'' := 1 + 3)"
  have h: "(1::nat) \<le> 1" "(1::nat) \<le> length ?ps * 2" "(1::nat) \<le> 4" "(4::nat) \<le> length ?ps * 2"
    "(1::nat) \<le> 2" "(1::nat) \<le> 3" "(3::nat) \<le> length ?ps * 2"
    by simp_all
  have p1: "?s1 ''player'' = 1" "?s1 ''sum'' = 1 + 4" by simp_all
  have p2: "?s2 ''player'' = 1" "?s2 ''sum'' = 1 + 3" by simp_all
  note T1 = match_test_pairs [OF h(1) h(2) h(3) h(4) h(1) h(5) p1, of True "''en''" "''welcome''"]
  note T2 = match_test_pairs [OF h(1) h(2) h(6) h(7) h(1) h(5) p2, of True "''en''" "''welcome''"]
  have pi: "pair_index 2 1 = 0" by (simp add: pair_index_def)
  from T1 [THEN conjunct2, THEN conjunct2, THEN conjunct1]
  have a: "sound ?ps True 1 = Some ''cat_a''" by (simp add: pi)
  from T1 [THEN conjunct2, THEN conjunct2, THEN conjunct2, THEN conjunct1]
  have b: "sound ?ps True 4 = Some ''cat_b''" by (simp add: pi)
  note R1 = T1 [THEN conjunct2, THEN conjunct2, THEN conjunct2, THEN conjunct2,
                THEN conjunct2, THEN conjunct2]
  note R2 = T2 [THEN conjunct2, THEN conjunct2, THEN conjunct2, THEN conjunct2,
                THEN conjunct2, THEN conjunct2]
  from R1 [THEN conjunct1]
  have c: "test ''en'' 4 2 ! 0 =
        [Cond ''sum'' Eq (Num 5), Cond ''player'' Eq (Num 1),
         Cmd ''pairs1'' Add (Num 1), Cmd ''remaining'' Sub (Num 1),
         Jump ''clear1'', Play ''en_match'']"
    by (simp add: reg_pairs_def str_nat_1)
  have n: "length ?ps * 2 = 4" by simp
  note Q1 = R1 [THEN conjunct2, THEN conjunct1, unfolded n]
  note Q2 = R2 [THEN conjunct2, THEN conjunct1, unfolded n]
  have "first_fire ?s1 (test ''en'' 4 2) = Some (1 - 1)"
    by (rule Q1 [THEN iffD2]) simp
  note d = this [unfolded diff_self_eq_0]
  have "first_fire ?s2 (test ''en'' 4 2) \<noteq> Some (1 - 1)"
  proof
    assume "first_fire ?s2 (test ''en'' 4 2) = Some (1 - 1)"
    then have "(1::nat) + 3 = 4 + 1" by (rule Q2 [THEN iffD1])
    then show False by simp
  qed
  note e = this [unfolded diff_self_eq_0]
  from a b c d e show ?thesis by blast
qed

section \<open>Registers found by the scan and the restart scripts\<close>

lemma findall_var_skip: "CHR ''$'' \<notin> set s \<Longrightarrow> findall_var (s @ rest) = findall_var rest"
  by (induction s) auto

lemma takeWhile_ident:
  "list_all alnum r \<Longrightarrow> rest = [] \<or> \<not> alnum (hd rest) \<Longrightarrow>
   takeWhile alnum (r @ rest) = r \<and> dropWhile alnum (r @ rest) = rest"
  by (induction r) (cases rest; auto)+

lemma findall_var_reg:
  assumes "ident r" and "rest = [] \<or> \<not> alnum (hd rest)"
  shows "findall_var (CHR ''$'' # r @ rest) = r # findall_var rest"
  using assms takeWhile_ident [of r rest] by (simp add: ident_def)

lemma takeWhile_snoc_space:
  "takeWhile alnum (cs @ '' '') = takeWhile alnum cs
   \<and> dropWhile alnum (cs @ '' '') = dropWhile alnum cs @ '' ''"
  by (induction cs) (simp_all add: alnum_def)

lemma findall_var_snoc_space: "findall_var (s @ '' '') = findall_var s"
proof (induction s rule: findall_var.induct)
  case 1
  show ?case by simp
next
  case (2 ch cs)
  then show ?case using takeWhile_snoc_space [of cs] by auto
qed

lemma not_alnum_chars:
  "\<not> alnum CHR ''=''" "\<not> alnum CHR ''!''" "\<not> alnum CHR ''<''" "\<not> alnum CHR ''>''"
  "\<not> alnum CHR '':''" "\<not> alnum CHR ''+''" "\<not> alnum CHR ''-''" "\<not> alnum CHR ''*''"
  "\<not> alnum CHR ''%''" "\<not> alnum CHR ''/''" "\<not> alnum CHR ''?''" "\<not> alnum CHR '',''"
  "\<not> alnum CHR '' ''"
  by (simp_all add: alnum_def)

lemma str_nat_no_dollar: "CHR ''$'' \<notin> set (str_nat n)"
  by (rule str_nat_no_char) simp

lemma findall_var_operand:
  assumes "plain_operand v" and "\<not> alnum ch" and "ch \<noteq> CHR ''$''"
  shows "findall_var (render_operand v @ ch # rest) = operand_regs v @ findall_var rest"
proof (cases v)
  case (Reg r)
  then have "findall_var (render_operand v @ ch # rest) = r # findall_var (ch # rest)"
    using assms(1,2) findall_var_reg [of r "ch # rest"] by simp
  then show ?thesis using Reg assms(3) by simp
next
  case (Num n)
  then show ?thesis
    using findall_var_skip [OF str_nat_no_dollar, of n "ch # rest"] assms(3) by simp
next
  case (Txt s)
  then show ?thesis
    using assms(1,3) findall_var_skip [of s "ch # rest"] by simp
qed

lemma findall_var_token:
  assumes "plain_token t"
  shows "findall_var (render t @ CHR '' '' # rest) = token_regs t @ findall_var rest"
    and "findall_var (render t) = token_regs t"
proof -
  have a: "findall_var (render t @ CHR '' '' # rest) = token_regs t @ findall_var rest" for rest
  proof (cases t)
    case (Cond r c v)
    have "findall_var (CHR ''$'' # r @ (cmp_text c @ render_operand v @ CHR ''?'' # CHR '' '' # rest))
        = r # findall_var (cmp_text c @ render_operand v @ CHR ''?'' # CHR '' '' # rest)"
      using assms Cond by (intro findall_var_reg) (cases c; simp_all add: not_alnum_chars)+
    moreover have "findall_var (cmp_text c @ render_operand v @ CHR ''?'' # CHR '' '' # rest)
        = findall_var (render_operand v @ CHR ''?'' # CHR '' '' # rest)"
      by (intro findall_var_skip) (cases c; simp)
    moreover have "findall_var (render_operand v @ CHR ''?'' # CHR '' '' # rest)
        = operand_regs v @ findall_var (CHR '' '' # rest)"
      using assms Cond by (intro findall_var_operand) (simp_all add: not_alnum_chars)
    ultimately show ?thesis using Cond by simp
  next
    case (Cmd r a v)
    have "findall_var (CHR ''$'' # r @ (aop_text a @ render_operand v @ CHR '' '' # rest))
        = r # findall_var (aop_text a @ render_operand v @ CHR '' '' # rest)"
      using assms Cmd by (intro findall_var_reg) (cases a; simp_all add: not_alnum_chars)+
    moreover have "findall_var (aop_text a @ render_operand v @ CHR '' '' # rest)
        = findall_var (render_operand v @ CHR '' '' # rest)"
      by (intro findall_var_skip) (cases a; simp)
    moreover have "findall_var (render_operand v @ CHR '' '' # rest)
        = operand_regs v @ findall_var rest"
      using assms Cmd by (intro findall_var_operand) (simp_all add: not_alnum_chars)
    ultimately show ?thesis using Cmd by simp
  next
    case (Timer r n)
    have "findall_var (CHR ''$'' # r @ ('', '' @ str_nat n @ '')'' @ CHR '' '' # rest))
        = r # findall_var ('', '' @ str_nat n @ '')'' @ CHR '' '' # rest)"
      using assms Timer by (intro findall_var_reg) (simp_all add: not_alnum_chars)
    moreover have "findall_var (('', '' @ str_nat n @ '')'' @ '' '') @ rest) = findall_var rest"
      by (intro findall_var_skip) (simp add: str_nat_no_dollar)
    ultimately show ?thesis using Timer by simp
  next
    case (Jump s)
    then show ?thesis using assms findall_var_skip [of "''J('' @ s @ '') ''" rest] by simp
  next
    case (Play s)
    then show ?thesis using assms findall_var_skip [of "''P('' @ s @ '') ''" rest] by simp
  qed
  show "findall_var (render t @ CHR '' '' # rest) = token_regs t @ findall_var rest"
    by (rule a)
  show "findall_var (render t) = token_regs t"
    using a [of "[]"] findall_var_snoc_space [of "render t"] by simp
qed

lemma findall_var_line:
  "list_all plain_token l \<Longrightarrow> findall_var (render_line l) = concat (map token_regs l)"
proof (induction l)
  case Nil
  show ?case by (simp add: render_line_def)
next
  case (Cons t l)
  show ?case
  proof (cases l)
    case Nil
    then show ?thesis using Cons.prems by (simp add: render_line_def findall_var_token(2))
  next
    case (Cons t' l')
    have "render_line (t # l) = render t @ CHR '' '' # render_line l"
      using Cons by (simp add: render_line_def)
    then show ?thesis using Cons.prems Cons.IH by (simp add: findall_var_token(1))
  qed
qed

lemma findall_var_chars: "concat (map findall_var (map (\<lambda>ch. [ch]) s)) = []"
  by (induction s) simp_all

lemma script_iter_regs:
  "(\<forall>l\<in>set (script_lines sc). list_all plain_token l) \<Longrightarrow>
   concat (map findall_var (script_iter sc)) = script_regs sc"
proof (cases sc)
  case (Str l)
  then show ?thesis by (simp add: findall_var_chars)
next
  case (Lst ls)
  assume "\<forall>l\<in>set (script_lines sc). list_all plain_token l"
  then have "\<And>l. l \<in> set ls \<Longrightarrow> findall_var (render_line l) = concat (map token_regs l)"
    using Lst by (simp add: findall_var_line)
  then have "map (\<lambda>l. findall_var (render_line l)) ls = map (\<lambda>l. concat (map token_regs l)) ls"
    by (intro map_cong) simp_all
  then show ?thesis using Lst by (simp add: comp_def del: map_eq_conv)
qed

lemma program_regs:
  "(\<forall>x\<in>set prog. \<forall>l\<in>set (script_lines (snd x)). list_all plain_token l) \<Longrightarrow>
   concat (map findall_var (concat (map (\<lambda>(name, script). script_iter script) prog)))
     = concat (map (\<lambda>(name, script). script_regs script) prog)"
proof (induction prog)
  case Nil
  show ?case by simp
next
  case (Cons x prog)
  obtain name sc where x: "x = (name, sc)" by (cases x)
  have "concat (map findall_var (script_iter sc)) = script_regs sc"
    using Cons.prems x by (intro script_iter_regs) simp
  then show ?case using Cons x by simp
qed

lemma digit_alnum: "ch \<in> set ''0123456789'' \<Longrightarrow> alnum ch"
  by (simp add: alnum_def)

lemma ident_digits: "ident (str_nat n)"
proof -
  have "alnum ch" if "ch \<in> set (str_nat n)" for ch
    using that str_nat_digits [of n] by (intro digit_alnum) blast
  then show ?thesis by (simp add: ident_def list_all_iff str_nat_nonempty)
qed

lemma ident_append: "ident a \<Longrightarrow> ident b \<Longrightarrow> ident (a @ b)"
  by (simp add: ident_def)

lemma ident_names:
  "ident ''busy''" "ident ''players''" "ident ''random''" "ident ''remaining''"
  "ident ''player''" "ident ''lastCard''" "ident ''rnd''" "ident ''pos''" "ident ''t''"
  "ident ''card1''" "ident ''pos1''" "ident ''lastPos''" "ident ''card2''" "ident ''pos2''"
  "ident ''sum''" "ident ''c''" "ident ''pairs''"
  by (simp_all add: ident_def alnum_def)

lemma ident_reg_c: "ident (reg_c x)"
  unfolding reg_c_def by (intro ident_append ident_names ident_digits)

lemma ident_reg_pairs: "ident (reg_pairs p)"
  unfolding reg_pairs_def by (intro ident_append ident_names ident_digits)

lemma sound_x: "the (sound [''x''] False 1) = ''x''" "the (sound [''x''] False 2) = ''x''"
  by (simp_all add: sound_def py_index_def)

lemma base_one_pair:
  "base_scripts 1 [''x''] False ''en'' = Inr
     [(''idle'', Str idle),
      (''p1'', Lst (player_lines ''en'' 1 1)),
      (''q'', Lst (question ''en'' 1)),
      (''r'', Lst [[Cond ''busy'' Eq (Num 0), Cond ''remaining'' Eq (Num 0),
                    Cmd ''busy'' Set (Num 1), Jump ''restart0'', Play ''nop''],
                   [Cond ''busy'' Eq (Num 0), Cond ''lastCard'' Eq (Num 1),
                    Cmd ''busy'' Set (Num 1), Jump ''idle'', Play ''x''],
                   [Cond ''busy'' Eq (Num 0), Cond ''lastCard'' Eq (Num 2),
                    Cmd ''busy'' Set (Num 1), Jump ''idle'', Play ''x'']]),
      (''shuffle'', Str (shuffle 2)),
      (''shuffle0'', Lst (shuffle_lines ''en'' 2 0)),
      (''c0'', Lst (card_lines ''en'' 0)),
      (''c1'', Lst (card_lines ''en'' 1)),
      (''firstCard'', Lst [[Cond ''card1'' Eq (Num 1), Jump ''idle'', Play ''x''],
                           [Cond ''card1'' Eq (Num 2), Jump ''idle'', Play ''x'']]),
      (''secondCard'', Lst [[Cond ''card2'' Eq (Num 1), Cmd ''sum'' Set (Reg ''card1''),
                             Cmd ''sum'' Add (Reg ''card2''), Cmd ''card1'' Set (Num 0),
                             Cmd ''card2'' Set (Num 0), Jump ''test'', Play ''x''],
                            [Cond ''card2'' Eq (Num 2), Cmd ''sum'' Set (Reg ''card1''),
                             Cmd ''sum'' Add (Reg ''card2''), Cmd ''card1'' Set (Num 0),
                             Cmd ''card2'' Set (Num 0), Jump ''test'', Play ''x'']]),
      (''test'', Lst (test ''en'' 2 1)),
      (''clear1'', Lst (clear1 ''en'' 2)),
      (''clear2'', Lst (clear2 ''en'' 2))]"
proof -
  have u: "[1..<length [''x''] * 2 + 1] = [1, 2]" "[1..<1 + 1] = [1::nat]"
    "[0..<length [''x''] * 2] = [0, 1]" "[0..<length [''x''] * 2 - 1] = [0]"
    by (simp_all add: upt_rec)
  show ?thesis
    unfolding base_scripts_eq shuffle_family_def card_family_def u
    by (simp add: sound_x str_nat_0 str_nat_1)
qed

lemma str_nat_Suc_Suc_0: "str_nat (Suc (Suc 0)) = ''2''"
  using str_nat_2 by (simp add: numeral_2_eq_2)

lemma init_one_pair:
  "findall_init (init_line 1)
     = [(''c0'', ''1''), (''c1'', ''2''), (''remaining'', ''1''), (''player'', ''1'')]"
proof -
  have u: "[0..<1 * 2] = [0, 1]" by (simp add: upt_rec)
  have "init_line 1 = ''$c0:=1 $c1:=2 $remaining:=1 $player:=1''"
    unfolding init_line_def u
    by (simp add: reg_c_def str_nat_0 str_nat_1 str_nat_Suc_Suc_0)
  then show ?thesis
    by (simp add: match_init_def alnum_def digit_def Let_def)
qed

lemma plain_one_pair:
  assumes "base_scripts 1 [''x''] False ''en'' = Inr B"
  shows "\<forall>x\<in>set B. \<forall>l\<in>set (script_lines (snd x)). list_all plain_token l"
proof -
  have u: "[1..<1 + 1] = [1::nat]" "[0..<1 + 1] = [0::nat, 1]" "[1..<1] = ([]::nat list)"
    "[0..<2] = [0::nat, 1]"
    by (simp_all add: upt_rec)
  note B = assms [unfolded base_one_pair sum.inject, symmetric]
  show ?thesis
    unfolding B idle_def player_lines_def question_def winner_line_def shuffle_def
      shuffle_lines_def swap_line_def card_lines_def test_def clear1_def clear2_def u
    by (simp add: ident_names ident_reg_c ident_reg_pairs str_nat_no_dollar)
qed

lemma variables_one_pair:
  assumes "base_scripts 1 [''x''] False ''en'' = Inr B"
  shows "variables (init_line 1) B =
     [(''c0'', Txt ''1''), (''c1'', Txt ''2''), (''remaining'', Txt ''1''),
      (''player'', Txt ''1''), (''players'', Num 0), (''busy'', Num 0), (''random'', Num 0),
      (''pairs1'', Num 0), (''lastCard'', Num 0), (''pos'', Num 0), (''t'', Num 0),
      (''card1'', Num 0), (''pos1'', Num 0), (''lastPos'', Num 0), (''card2'', Num 0),
      (''pos2'', Num 0), (''sum'', Num 0)]"
proof -
  have u: "[1..<1 + 1] = [1::nat]" "[0..<1 + 1] = [0::nat, 1]" "[1..<1] = ([]::nat list)"
    "[0..<2] = [0::nat, 1]"
    by (simp_all add: upt_rec)
  note P = plain_one_pair [OF assms]
  note B = assms [unfolded base_one_pair sum.inject, symmetric]
  show ?thesis
    unfolding variables_def program_regs [OF P] init_one_pair
    unfolding B idle_def player_lines_def question_def winner_line_def shuffle_def
      shuffle_lines_def swap_line_def card_lines_def test_def clear1_def clear2_def u
    by (simp add: add_variable_def reg_c_def reg_pairs_def str_nat_0 str_nat_1)
qed

text \<open>The assignments of all restart scripts, in order, are the entries given to the loop,
  each once.\<close>

lemma restart_loop_assignments:
  "concat (map (\<lambda>(name, s). case s of Str l \<Rightarrow> take (length l - 2) l | Lst ls \<Rightarrow> [])
               (restart_loop vs count cmd i w))
     = cmd @ map (\<lambda>v. Cmd (fst v) Set (snd v)) vs"
  by (induction vs arbitrary: count cmd i) simp_all

text \<open>
  Claim C5 does not hold of the code for a game of one pair.  The loop that collects the
  registers iterates \<open>for line in script\<close>; the scripts \<open>idle\<close> and \<open>shuffle\<close> are single
  strings, so it reads them character by character and finds no register in them.  With
  one pair the register \<open>rnd\<close> occurs in \<open>shuffle\<close> only: it is in the generated program
  and in none of the three restart scripts.
\<close>

theorem restart_misses_rnd:
  "Inr (take 13 (generated 1 [''x''] False ''en'' ''welcome'')) = base_scripts 1 [''x''] False ''en''
   \<and> (''shuffle'', Str (shuffle 2)) \<in> set (generated 1 [''x''] False ''en'' ''welcome'')
   \<and> shuffle 2 =
        [Cmd ''random'' Mul (Num 25173), Cmd ''random'' Add (Num 13849),
         Cmd ''rnd'' Set (Reg ''random''), Cmd ''pos'' Set (Reg ''rnd''),
         Cmd ''pos'' Mod (Num 2), Cmd ''rnd'' Div (Num 2), Jump ''shuffle0'', Play ''nop'']
   \<and> ''rnd'' \<in> set (findall_var (render_line (shuffle 2)))
   \<and> drop 13 (generated 1 [''x''] False ''en'' ''welcome'') =
        [(''restart0'',
          Str [Cmd ''c0'' Set (Txt ''1''), Cmd ''c1'' Set (Txt ''2''),
               Cmd ''remaining'' Set (Txt ''1''), Cmd ''player'' Set (Txt ''1''),
               Cmd ''players'' Set (Num 0), Cmd ''random'' Set (Num 0),
               Jump ''restart1'', Play ''nop'']),
         (''restart1'',
          Str [Cmd ''pairs1'' Set (Num 0), Cmd ''lastCard'' Set (Num 0),
               Cmd ''pos'' Set (Num 0), Cmd ''t'' Set (Num 0),
               Cmd ''card1'' Set (Num 0), Cmd ''pos1'' Set (Num 0),
               Jump ''restart2'', Play ''nop'']),
         (''restart2'',
          Str [Cmd ''lastPos'' Set (Num 0), Cmd ''card2'' Set (Num 0),
               Cmd ''pos2'' Set (Num 0), Cmd ''sum'' Set (Num 0),
               Jump ''idle'', Play ''welcome''])]"
proof -
  obtain B where B: "base_scripts 1 [''x''] False ''en'' = Inr B"
    using base_one_pair by blast
  have len: "length B = 13"
    using B [unfolded base_one_pair sum.inject, symmetric] by simp
  have g: "generated 1 [''x''] False ''en'' ''welcome''
      = B @ restart_loop (AList.delete ''busy'' (variables (init_line (length [''x''])) B))
              0 [] 0 ''welcome''"
    using scripts_eq [OF B, of "''welcome''"] by (simp add: generated_def)
  have v: "variables (init_line (length [''x''])) B =
     [(''c0'', Txt ''1''), (''c1'', Txt ''2''), (''remaining'', Txt ''1''),
      (''player'', Txt ''1''), (''players'', Num 0), (''busy'', Num 0), (''random'', Num 0),
      (''pairs1'', Num 0), (''lastCard'', Num 0), (''pos'', Num 0), (''t'', Num 0),
      (''card1'', Num 0), (''pos1'', Num 0), (''lastPos'', Num 0), (''card2'', Num 0),
      (''pos2'', Num 0), (''sum'', Num 0)]"
    using variables_one_pair [OF B] by simp
  have a: "Inr (take 13 (generated 1 [''x''] False ''en'' ''welcome''))
      = base_scripts 1 [''x''] False ''en''"
    unfolding g B using len by simp
  have b: "(''shuffle'', Str (shuffle 2)) \<in> set (generated 1 [''x''] False ''en'' ''welcome'')"
    using generated_members(4) [of "[''x'']" 1 False "''en''" "''welcome''"] by simp
  have c: "shuffle 2 =
        [Cmd ''random'' Mul (Num 25173), Cmd ''random'' Add (Num 13849),
         Cmd ''rnd'' Set (Reg ''random''), Cmd ''pos'' Set (Reg ''rnd''),
         Cmd ''pos'' Mod (Num 2), Cmd ''rnd'' Div (Num 2), Jump ''shuffle0'', Play ''nop'']"
    by (simp add: shuffle_def)
  have "list_all plain_token (shuffle 2)"
    unfolding c by (simp add: ident_names)
  then have "findall_var (render_line (shuffle 2)) = concat (map token_regs (shuffle 2))"
    by (rule findall_var_line)
  then have d: "''rnd'' \<in> set (findall_var (render_line (shuffle 2)))"
    unfolding c by simp
  have e: "drop 13 (generated 1 [''x''] False ''en'' ''welcome'') =
        [(''restart0'',
          Str [Cmd ''c0'' Set (Txt ''1''), Cmd ''c1'' Set (Txt ''2''),
               Cmd ''remaining'' Set (Txt ''1''), Cmd ''player'' Set (Txt ''1''),
               Cmd ''players'' Set (Num 0), Cmd ''random'' Set (Num 0),
               Jump ''restart1'', Play ''nop'']),
         (''restart1'',
          Str [Cmd ''pairs1'' Set (Num 0), Cmd ''lastCard'' Set (Num 0),
               Cmd ''pos'' Set (Num 0), Cmd ''t'' Set (Num 0),
               Cmd ''card1'' Set (Num 0), Cmd ''pos1'' Set (Num 0),
               Jump ''restart2'', Play ''nop'']),
         (''restart2'',
          Str [Cmd ''lastPos'' Set (Num 0), Cmd ''card2'' Set (Num 0),
               Cmd ''pos2'' Set (Num 0), Cmd ''sum'' Set (Num 0),
               Jump ''idle'', Play ''welcome''])]"
    unfolding g v using len
    by (simp add: AList.delete_eq str_nat_0 str_nat_1 str_nat_Suc_Suc_0)
  from a b c d e show ?thesis by blast
qed

end
